theory Spec2Isabelle
  imports Main "HOL-Library.AList"
begin

section \<open>JavaScript values and strings\<close>

text \<open>
  Payloads arrive over the socket as JSON, so a handler can receive any JSON value, and a
  missing property reads as \<open>undefined\<close>. Numbers are only tested for truthiness here, so
  they are carried as integers. An object is its property list; reading a property takes
  the first binding of the name.
\<close>

datatype jsval =
    JUndefined
  | JNull
  | JBool bool
  | JNum int
  | JStr string
  | JArr "jsval list"
  | JObj "(string \<times> jsval) list"

text \<open>\<open>!v\<close> is \<open>\<not> truthy v\<close>.\<close>

fun truthy :: "jsval \<Rightarrow> bool" where
  "truthy JUndefined = False"
| "truthy JNull = False"
| "truthy (JBool b) = b"
| "truthy (JNum n) = (n \<noteq> 0)"
| "truthy (JStr s) = (s \<noteq> [])"
| "truthy (JArr xs) = True"
| "truthy (JObj fs) = True"

fun isArray :: "jsval \<Rightarrow> bool" where
  "isArray (JArr xs) = True"
| "isArray v = False"

fun elements :: "jsval \<Rightarrow> jsval list" where
  "elements (JArr xs) = xs"
| "elements v = []"

text \<open>
  \<open>const { k } = data\<close>: destructuring \<open>undefined\<close> or \<open>null\<close> throws a TypeError
  (\<open>None\<close>); any other value yields the property, \<open>undefined\<close> when it is absent.
\<close>

fun destructure :: "string \<Rightarrow> jsval \<Rightarrow> jsval option" where
  "destructure k JUndefined = None"
| "destructure k JNull = None"
| "destructure k (JObj fs) = Some (case map_of fs k of None \<Rightarrow> JUndefined | Some v \<Rightarrow> v)"
| "destructure k v = Some JUndefined"

text \<open>
  A string is carried as the byte list of its UTF-8 encoding; the empty string is the
  empty list. The code calls two string methods of the engine,
  \<open>String.prototype.toUpperCase\<close> and \<open>String.prototype.trim\<close>. Their Unicode tables
  are not part of the repository: they are parameters, and every definition that calls
  them takes the engine \<open>js\<close> as its first argument.
\<close>

record jsengine =
  toUpperCase :: "string \<Rightarrow> string"
  trim :: "string \<Rightarrow> string"

section \<open>The registry: connections, subscriptions, updateInterval\<close>

text \<open>
  A JavaScript \<open>Map\<close> keeps its keys in insertion order: it is an association list, with
  \<open>Map.get\<close> as \<open>map_of\<close>, \<open>Map.set\<close> as \<open>AList.update\<close> (in place for a present key, at
  the end for a new one) and \<open>Map.delete\<close> as \<open>AList.delete\<close>. A \<open>Set\<close> is a list in
  insertion order.
\<close>

definition set_add :: "'a \<Rightarrow> 'a list \<Rightarrow> 'a list" where
  "set_add x xs = (if x \<in> set xs then xs else xs @ [x])"

definition set_delete :: "'a \<Rightarrow> 'a list \<Rightarrow> 'a list" where
  "set_delete x xs = removeAll x xs"

type_synonym symbol = string
type_synonym client_id = string

text \<open>
  The value stored in \<open>connections\<close>. The field \<open>subscriptions\<close> of the source is
  \<open>conn_subscriptions\<close> here (the global map keeps the name); \<open>connected\<close> is
  \<open>socket.connected\<close>; \<open>connectedAt\<close> is a wall-clock time that nothing reads.
\<close>

record connection =
  conn_subscriptions :: "symbol list"
  userId :: jsval
  connected :: bool

record registry =
  connections :: "(client_id \<times> connection) list"
  subscriptions :: "(symbol \<times> client_id list) list"
  updateInterval :: bool

definition init :: registry where
  "init = \<lparr>connections = [], subscriptions = [], updateInterval = False\<rparr>"

definition MAX_SUBSCRIPTIONS_PER_CLIENT :: nat where
  "MAX_SUBSCRIPTIONS_PER_CLIENT = 50"

definition startUpdateInterval :: "registry \<Rightarrow> registry" where
  "startUpdateInterval st = st\<lparr>updateInterval := True\<rparr>"

definition stopUpdateInterval :: "registry \<Rightarrow> registry" where
  "stopUpdateInterval st = (if updateInterval st then st\<lparr>updateInterval := False\<rparr> else st)"

section \<open>Messages\<close>

text \<open>
  What a handler sends to its client. Timestamps are left out. \<open>Subscribe_event\<close> is the
  event named \<open>subscribe\<close> when the server emits it on the socket.
\<close>

text \<open>
  An \<open>error.message\<close>: a literal text, the text the engine gives a TypeError, or the
  text that \<open>getMultipleStockPrices\<close> builds around the message of a caught error
  (\<open>Failed to fetch multiple stock prices: ...\<close>).
\<close>

datatype error_message =
    Message string
  | TypeError_message
  | Failed_to_fetch_multiple error_message

datatype message =
    Authenticated jsval
  | Authentication_error string
  | Subscription_error string
  | Subscribed "symbol list" "(jsval \<times> error_message) list"
  | Unsubscribed "symbol list"
  | Unsubscription_error string
  | Watchlist_subscribed "jsval list" string
  | Subscribe_event "jsval list"
  | Pong

datatype action =
    Emit client_id message
  | SendInitialStockData client_id "symbol list"

section \<open>The handlers of setupWebSocket\<close>

definition on_connection :: "client_id \<Rightarrow> registry \<Rightarrow> registry" where
  "on_connection clientId st =
     st\<lparr>connections := AList.update clientId
          \<lparr>conn_subscriptions = [], userId = JNull, connected = True\<rparr> (connections st)\<rparr>"

definition on_authenticate :: "client_id \<Rightarrow> jsval \<Rightarrow> registry \<Rightarrow> action list \<times> registry" where
  "on_authenticate clientId data st =
     (case destructure ''userId'' data of
        None \<Rightarrow> ([Emit clientId (Authentication_error ''Authentication failed'')], st)
      | Some uid \<Rightarrow>
          if truthy uid then
            (case map_of (connections st) clientId of
               None \<Rightarrow> ([], st)
             | Some connection \<Rightarrow>
                 ([Emit clientId (Authenticated uid)],
                  st\<lparr>connections :=
                       AList.map_entry clientId (\<lambda>c. c\<lparr>userId := uid\<rparr>) (connections st)\<rparr>))
          else ([Emit clientId (Authentication_error ''Invalid credentials'')], st))"

text \<open>
  The body of the \<open>symbols.forEach\<close> of the subscribe handler, on the registry and the two
  result arrays. \<open>toUpperCase\<close> on a value that is not a string throws; the inner
  \<open>catch\<close> turns that into an entry of \<open>errors\<close>.
\<close>

fun subscribe_symbol ::
  "jsengine \<Rightarrow> client_id \<Rightarrow> jsval \<Rightarrow> registry \<times> symbol list \<times> (jsval \<times> error_message) list
     \<Rightarrow> registry \<times> symbol list \<times> (jsval \<times> error_message) list" where
  "subscribe_symbol js clientId (JStr s) (st, subscribedSymbols, errors) =
     (let cleanSymbol = trim js (toUpperCase js s) in
      if cleanSymbol = [] then (st, subscribedSymbols, errors @ [(JStr s, Message ''Invalid symbol'')])
      else
        (st\<lparr>connections :=
              AList.map_entry clientId
                (\<lambda>c. c\<lparr>conn_subscriptions := set_add cleanSymbol (conn_subscriptions c)\<rparr>)
                (connections st),
            subscriptions :=
              (let subs = (case map_of (subscriptions st) cleanSymbol of
                             None \<Rightarrow> AList.update cleanSymbol [] (subscriptions st)
                           | Some ids \<Rightarrow> subscriptions st)
               in AList.map_entry cleanSymbol (set_add clientId) subs)\<rparr>,
         subscribedSymbols @ [cleanSymbol], errors))"
| "subscribe_symbol js clientId v (st, subscribedSymbols, errors) =
     (st, subscribedSymbols, errors @ [(v, TypeError_message)])"

definition on_subscribe :: "jsengine \<Rightarrow> client_id \<Rightarrow> jsval \<Rightarrow> registry \<Rightarrow> action list \<times> registry" where
  "on_subscribe js clientId data st =
     (case destructure ''symbols'' data of
        None \<Rightarrow> ([Emit clientId (Subscription_error ''Subscription failed'')], st)
      | Some symbols \<Rightarrow>
          if \<not> truthy symbols \<or> \<not> isArray symbols then
            ([Emit clientId (Subscription_error ''Invalid symbols array'')], st)
          else
            (case map_of (connections st) clientId of
               None \<Rightarrow> ([Emit clientId (Subscription_error ''Connection not found'')], st)
             | Some connection \<Rightarrow>
                 if length (conn_subscriptions connection) + length (elements symbols)
                      > MAX_SUBSCRIPTIONS_PER_CLIENT then
                   ([Emit clientId
                       (Subscription_error ''Maximum 50 subscriptions allowed per client'')], st)
                 else
                   (case fold (subscribe_symbol js clientId) (elements symbols) (st, [], []) of
                      (st', subscribedSymbols, errors) \<Rightarrow>
                        (Emit clientId (Subscribed subscribedSymbols errors) #
                           (if subscribedSymbols \<noteq> []
                            then [SendInitialStockData clientId subscribedSymbols] else []),
                         if subscriptions st' \<noteq> [] \<and> \<not> updateInterval st'
                         then startUpdateInterval st' else st'))))"

text \<open>
  Unsubscribe and disconnect both take a client out of a symbol's set and delete the
  key when the set has become empty.
\<close>

definition remove_client ::
  "symbol \<Rightarrow> client_id \<Rightarrow> (symbol \<times> client_id list) list \<Rightarrow> (symbol \<times> client_id list) list" where
  "remove_client symbol clientId subs =
     (case map_of subs symbol of
        None \<Rightarrow> subs
      | Some ids \<Rightarrow>
          (let ids' = set_delete clientId ids in
           if length ids' = 0 then AList.delete symbol subs
           else AList.update symbol ids' subs))"

text \<open>
  The \<open>symbols.forEach\<close> of the unsubscribe handler. It has no inner \<open>try\<close>: a symbol
  that is not a string throws out of the loop (\<open>Inl\<close>), after the earlier symbols have
  been removed.
\<close>

fun unsubscribe_symbols ::
  "jsengine \<Rightarrow> client_id \<Rightarrow> jsval list \<Rightarrow> registry \<Rightarrow> symbol list \<Rightarrow> registry + registry \<times> symbol list" where
  "unsubscribe_symbols js clientId [] st unsubscribedSymbols = Inr (st, unsubscribedSymbols)"
| "unsubscribe_symbols js clientId (JStr s # rest) st unsubscribedSymbols =
     (let cleanSymbol = trim js (toUpperCase js s) in
      unsubscribe_symbols js clientId rest
        (st\<lparr>connections :=
              AList.map_entry clientId
                (\<lambda>c. c\<lparr>conn_subscriptions := set_delete cleanSymbol (conn_subscriptions c)\<rparr>)
                (connections st),
            subscriptions := remove_client cleanSymbol clientId (subscriptions st)\<rparr>)
        (unsubscribedSymbols @ [cleanSymbol]))"
| "unsubscribe_symbols js clientId (v # rest) st unsubscribedSymbols = Inl st"

definition on_unsubscribe :: "jsengine \<Rightarrow> client_id \<Rightarrow> jsval \<Rightarrow> registry \<Rightarrow> action list \<times> registry" where
  "on_unsubscribe js clientId data st =
     (case destructure ''symbols'' data of
        None \<Rightarrow> ([Emit clientId (Unsubscription_error ''Unsubscription failed'')], st)
      | Some symbols \<Rightarrow>
          if \<not> truthy symbols \<or> \<not> isArray symbols then
            ([Emit clientId (Unsubscription_error ''Invalid symbols array'')], st)
          else
            (case map_of (connections st) clientId of
               None \<Rightarrow> ([], st)
             | Some connection \<Rightarrow>
                 (case unsubscribe_symbols js clientId (elements symbols) st [] of
                    Inl st' \<Rightarrow>
                      ([Emit clientId (Unsubscription_error ''Unsubscription failed'')], st')
                  | Inr (st', unsubscribedSymbols) \<Rightarrow>
                      ([Emit clientId (Unsubscribed unsubscribedSymbols)],
                       if subscriptions st' = [] \<and> updateInterval st'
                       then stopUpdateInterval st' else st'))))"

text \<open>
  The handler awaits \<open>Watchlist.findDefaultWatchlist(userId)\<close> inside its \<open>try\<close>. What
  that expression yields is the parameter \<open>findDefaultWatchlist\<close>: \<open>Inl\<close> when it throws
  or rejects, \<open>Inr None\<close> when it resolves to no document. A watchlist is given by the
  \<open>symbol\<close> of each of its \<open>items\<close>, in order.
\<close>

type_synonym watchlist = "jsval list"

definition on_subscribe_watchlist ::
  "(jsval \<Rightarrow> error_message + watchlist option) \<Rightarrow> client_id \<Rightarrow> jsval \<Rightarrow> registry
     \<Rightarrow> action list \<times> registry" where
  "on_subscribe_watchlist findDefaultWatchlist clientId data st =
     (case destructure ''userId'' data of
        None \<Rightarrow> ([Emit clientId (Subscription_error ''Failed to subscribe to watchlist'')], st)
      | Some uid \<Rightarrow>
          if \<not> truthy uid then
            ([Emit clientId
                (Subscription_error ''User ID required for watchlist subscription'')], st)
          else
            (case findDefaultWatchlist uid of
               Inl e \<Rightarrow>
                 ([Emit clientId (Subscription_error ''Failed to subscribe to watchlist'')], st)
             | Inr None \<Rightarrow>
                 ([Emit clientId (Watchlist_subscribed [] ''No watchlist found or empty'')], st)
             | Inr (Some items) \<Rightarrow>
                 if length items = 0 then
                   ([Emit clientId (Watchlist_subscribed [] ''No watchlist found or empty'')], st)
                 else ([Emit clientId (Subscribe_event items)], st)))"

text \<open>
  The model that the repository provides, \<open>db/models/Watchlist.js\<close>, exports
  \<open>Watchlist\<close> by name only, keeps the entries in \<open>stocks\<close>, and its statics are
  \<open>findByUserId\<close>, \<open>findDefaultByUserId\<close>, \<open>findByShareToken\<close> and
  \<open>findPublicWatchlists\<close>. The module of the handlers imports its default export and
  calls \<open>findDefaultWatchlist\<close>: nothing callable is found under that name, so the
  expression throws a TypeError for every \<open>userId\<close>.
\<close>

definition Watchlist_findDefaultWatchlist :: "jsval \<Rightarrow> error_message + watchlist option" where
  "Watchlist_findDefaultWatchlist uid = Inl TypeError_message"

definition on_ping :: "client_id \<Rightarrow> registry \<Rightarrow> action list \<times> registry" where
  "on_ping clientId st = ([Emit clientId Pong], st)"

definition on_disconnect :: "client_id \<Rightarrow> registry \<Rightarrow> registry" where
  "on_disconnect clientId st =
     (let st1 = (case map_of (connections st) clientId of
                   None \<Rightarrow> st
                 | Some connection \<Rightarrow>
                     st\<lparr>subscriptions :=
                          fold (\<lambda>symbol. remove_client symbol clientId)
                            (conn_subscriptions connection) (subscriptions st)\<rparr>);
          st2 = st1\<lparr>connections := AList.delete clientId (connections st1)\<rparr>
      in if subscriptions st2 = [] \<and> updateInterval st2 then stopUpdateInterval st2 else st2)"

section \<open>stockApi: getMultipleStockPrices\<close>

text \<open>
  A formatted quote: its \<open>symbol\<close> (\<open>undefined\<close> when the upstream quote has none) and
  the remaining fields, which are parsed numbers and texts that nothing here inspects.
\<close>

datatype 'q stock = Stock (stock_symbol: "symbol option") (stock_data: 'q)

text \<open>
  \<open>formatStockData(quote, 'iex')\<close> on an upstream quote, given as its \<open>symbol\<close> property
  and the rest. Only \<open>data.symbol?.toUpperCase()\<close> can throw.
\<close>

fun formatStockData :: "jsengine \<Rightarrow> jsval \<times> 'q \<Rightarrow> error_message + 'q stock" where
  "formatStockData js (JUndefined, q) = Inr (Stock None q)"
| "formatStockData js (JNull, q) = Inr (Stock None q)"
| "formatStockData js (JStr s, q) = Inr (Stock (Some (toUpperCase js s)) q)"
| "formatStockData js (v, q) = Inl TypeError_message"

text \<open>
  The environment of the module: the API key of \<open>process.env\<close>, and \<open>axios.get\<close> on the
  batch URL, which is determined by the key and the upper-cased symbols. The call throws
  (\<open>Inl\<close>), or answers with no data (\<open>Inr None\<close>), or with a table that gives, for a symbol,
  its quote when \<open>response.data[symbol]\<close> and its \<open>quote\<close> are truthy.
\<close>

record 'q api =
  IEX_CLOUD_API_KEY :: "string option"
  axios_get ::
    "string \<Rightarrow> symbol list \<Rightarrow> error_message + (symbol \<Rightarrow> (jsval \<times> 'q) option) option"

definition getIEXApiKey :: "'q api \<Rightarrow> error_message + string" where
  "getIEXApiKey api =
     (case IEX_CLOUD_API_KEY api of
        None \<Rightarrow> Inl (Message ''IEX_CLOUD_API_KEY is not configured'')
      | Some key \<Rightarrow>
          if key = [] then Inl (Message ''IEX_CLOUD_API_KEY is not configured'') else Inr key)"

text \<open>\<open>symbols.map(s => s.toUpperCase())\<close>: \<open>None\<close> when an element is not a string.\<close>

fun upper_all :: "jsengine \<Rightarrow> jsval list \<Rightarrow> symbol list option" where
  "upper_all js [] = Some []"
| "upper_all js (JStr s # rest) = map_option (\<lambda>r. toUpperCase js s # r) (upper_all js rest)"
| "upper_all js (v # rest) = None"

fun strings_of :: "jsval list \<Rightarrow> string list" where
  "strings_of [] = []"
| "strings_of (JStr s # rest) = s # strings_of rest"
| "strings_of (v # rest) = strings_of rest"

text \<open>The body of the \<open>symbols.forEach\<close> over the response.\<close>

definition collect_quote ::
  "jsengine \<Rightarrow> (symbol \<Rightarrow> (jsval \<times> 'q) option) \<Rightarrow> symbol
     \<Rightarrow> 'q stock list \<times> (symbol \<times> error_message) list
     \<Rightarrow> 'q stock list \<times> (symbol \<times> error_message) list" where
  "collect_quote js table symbol acc =
     (case acc of (results, errors) \<Rightarrow>
        (case table (toUpperCase js symbol) of
           Some quote \<Rightarrow>
             (case formatStockData js quote of
                Inr formattedData \<Rightarrow> (results @ [formattedData], errors)
              | Inl formatError \<Rightarrow> (results, errors @ [(symbol, formatError)]))
         | None \<Rightarrow> (results, errors @ [(symbol, Message ''Stock not found'')])))"

definition getMultipleStockPrices ::
  "jsengine \<Rightarrow> 'q api \<Rightarrow> jsval \<Rightarrow> error_message + 'q stock list \<times> (symbol \<times> error_message) list" where
  "getMultipleStockPrices js api symbols =
     (if \<not> truthy symbols \<or> \<not> isArray symbols \<or> length (elements symbols) = 0 then
        Inl (Message ''Valid symbols array is required'')
      else if length (elements symbols) > 100 then
        Inl (Message ''Maximum 100 symbols allowed per request'')
      else
        (case getIEXApiKey api of
           Inl e \<Rightarrow> Inl (Failed_to_fetch_multiple e)
         | Inr apiKey \<Rightarrow>
             (case upper_all js (elements symbols) of
                None \<Rightarrow> Inl (Failed_to_fetch_multiple TypeError_message)
              | Some symbolsParam \<Rightarrow>
                  (case axios_get api apiKey symbolsParam of
                     Inl e \<Rightarrow> Inl (Failed_to_fetch_multiple e)
                   | Inr None \<Rightarrow>
                       Inl (Failed_to_fetch_multiple
                              (Message ''No data received from batch request''))
                   | Inr (Some table) \<Rightarrow>
                       Inr (fold (collect_quote js table) (strings_of (elements symbols))
                              ([], []))))))"

section \<open>The refresh cycle: broadcastStockUpdates\<close>

definition batchSize :: nat where
  "batchSize = 10"

text \<open>
  The batch loop, for any upstream call \<open>fetch\<close>, from index \<open>i\<close>. Besides \<open>allUpdates\<close>
  and \<open>allErrors\<close> it records the batches it has passed to \<open>fetch\<close>, in order. The
  database write after a successful batch sits in its own \<open>try\<close> and its outcome is
  discarded; the delay between batches changes no value.
\<close>

function fetch_batches ::
  "(symbol list \<Rightarrow> error_message + 'q stock list \<times> (symbol \<times> error_message) list)
     \<Rightarrow> symbol list \<Rightarrow> nat
     \<Rightarrow> 'q stock list \<times> (symbol \<times> error_message) list \<times> symbol list list
     \<Rightarrow> 'q stock list \<times> (symbol \<times> error_message) list \<times> symbol list list" where
  "fetch_batches fetch symbols i (allUpdates, allErrors, calls) =
     (if i < length symbols then
        (let batch = take batchSize (drop i symbols) in
         fetch_batches fetch symbols (i + batchSize)
           (case fetch batch of
              Inr (stocks, errors) \<Rightarrow> (allUpdates @ stocks, allErrors @ errors, calls @ [batch])
            | Inl batchError \<Rightarrow>
                (allUpdates, allErrors @ map (\<lambda>symbol. (symbol, batchError)) batch,
                 calls @ [batch])))
      else (allUpdates, allErrors, calls))"
  by pat_completeness auto
termination
  by (relation "measure (\<lambda>(fetch, symbols, i, acc). length symbols - i)")
    (auto simp: batchSize_def)

declare fetch_batches.simps [simp del]

text \<open>What the cycle pushes to a client.\<close>

datatype 'q push =
    Stock_update symbol "'q stock"
  | Stock_error symbol error_message
  | Forced_stock_update symbol "'q stock"

text \<open>
  The inner \<open>subscribedClients.forEach\<close>: a client gets the message when it is still in
  \<open>connections\<close> and its socket is connected.
\<close>

definition emit_to_clients ::
  "registry \<Rightarrow> 'q push \<Rightarrow> client_id list \<Rightarrow> (client_id \<times> 'q push) list
     \<Rightarrow> (client_id \<times> 'q push) list" where
  "emit_to_clients st msg subscribedClients out =
     fold (\<lambda>clientId out.
             case map_of (connections st) clientId of
               None \<Rightarrow> out
             | Some connection \<Rightarrow>
                 if connected connection then out @ [(clientId, msg)] else out)
          subscribedClients out"

definition broadcast_stock ::
  "registry \<Rightarrow> 'q stock \<Rightarrow> (client_id \<times> 'q push) list \<Rightarrow> (client_id \<times> 'q push) list" where
  "broadcast_stock st stock out =
     (case stock_symbol stock of
        None \<Rightarrow> out
      | Some symbol \<Rightarrow>
          (case map_of (subscriptions st) symbol of
             None \<Rightarrow> out
           | Some subscribedClients \<Rightarrow>
               emit_to_clients st (Stock_update symbol stock) subscribedClients out))"

definition broadcast_error ::
  "registry \<Rightarrow> symbol \<times> error_message \<Rightarrow> (client_id \<times> 'q push) list
     \<Rightarrow> (client_id \<times> 'q push) list" where
  "broadcast_error st error out =
     (case map_of (subscriptions st) (fst error) of
        None \<Rightarrow> out
      | Some subscribedClients \<Rightarrow>
          emit_to_clients st (Stock_error (fst error) (snd error)) subscribedClients out)"

text \<open>The two fan-out loops, on the registry as it is when the fetches have returned.\<close>

definition deliver ::
  "registry \<Rightarrow> 'q stock list \<Rightarrow> (symbol \<times> error_message) list \<Rightarrow> (client_id \<times> 'q push) list" where
  "deliver st allUpdates allErrors =
     (let out = fold (broadcast_stock st) allUpdates [] in
      if length allErrors > 0 then fold (broadcast_error st) allErrors out else out)"

text \<open>
  One cycle: \<open>st\<close> is the registry when the tick fires, \<open>st'\<close> the registry when the last
  batch has returned (handlers run while the cycle awaits the upstream).
\<close>

definition refresh_fetch ::
  "jsengine \<Rightarrow> 'q api \<Rightarrow> registry
     \<Rightarrow> 'q stock list \<times> (symbol \<times> error_message) list \<times> symbol list list" where
  "refresh_fetch js api st =
     fetch_batches (\<lambda>batch. getMultipleStockPrices js api (JArr (map JStr batch)))
       (map fst (subscriptions st)) 0 ([], [], [])"

definition broadcastStockUpdates ::
  "jsengine \<Rightarrow> 'q api \<Rightarrow> registry \<Rightarrow> registry \<Rightarrow> (client_id \<times> 'q push) list" where
  "broadcastStockUpdates js api st st' =
     (if length (subscriptions st) = 0 then []
      else (case refresh_fetch js api st of
              (allUpdates, allErrors, calls) \<Rightarrow> deliver st' allUpdates allErrors))"

section \<open>forceStockUpdate\<close>



section \<open>Runs of the server\<close>

datatype event =
    Connection client_id
  | Authenticate client_id jsval
  | Subscribe client_id jsval
  | Unsubscribe client_id jsval
  | Subscribe_watchlist client_id jsval
  | Ping client_id
  | Disconnect client_id

fun step ::
  "jsengine \<Rightarrow> (jsval \<Rightarrow> error_message + watchlist option) \<Rightarrow> event \<Rightarrow> registry \<Rightarrow> action list \<times> registry" where
  "step js db (Connection c) st = ([], on_connection c st)"
| "step js db (Authenticate c d) st = on_authenticate c d st"
| "step js db (Subscribe c d) st = on_subscribe js c d st"
| "step js db (Unsubscribe c d) st = on_unsubscribe js c d st"
| "step js db (Subscribe_watchlist c d) st = on_subscribe_watchlist db c d st"
| "step js db (Ping c) st = on_ping c st"
| "step js db (Disconnect c) st = ([], on_disconnect c st)"

fun run :: "jsengine \<Rightarrow> (jsval \<Rightarrow> error_message + watchlist option) \<Rightarrow> event list \<Rightarrow> registry \<Rightarrow> registry" where
  "run js db [] st = st"
| "run js db (e # es) st = run js db es (snd (step js db e st))"

text \<open>
  \<open>socket.id\<close> is fresh for every connection: a trace is well formed when no
  \<open>Connection\<close> event carries the identifier of a connection that is still registered.
\<close>

fun fresh_ids :: "jsengine \<Rightarrow> (jsval \<Rightarrow> error_message + watchlist option) \<Rightarrow> event list \<Rightarrow> registry \<Rightarrow> bool" where
  "fresh_ids js db [] st = True"
| "fresh_ids js db (e # es) st =
     ((case e of Connection c \<Rightarrow> map_of (connections st) c = None | _ \<Rightarrow> True)
      \<and> fresh_ids js db es (snd (step js db e st)))"

text \<open>
  The two halves of the consistency of the registry: the keys of \<open>subscriptions\<close> are the
  symbols that some connection holds, and a connection holds a symbol exactly when its
  identifier is in the symbol's set.
\<close>

definition registry_consistent :: "registry \<Rightarrow> bool" where
  "registry_consistent st \<longleftrightarrow>
     (\<forall>s. (s \<in> fst ` set (subscriptions st)) =
           (\<exists>c conn. map_of (connections st) c = Some conn \<and> s \<in> set (conn_subscriptions conn)))
     \<and> (\<forall>c conn s. map_of (connections st) c = Some conn \<longrightarrow>
           (s \<in> set (conn_subscriptions conn)) =
           (\<exists>ids. map_of (subscriptions st) s = Some ids \<and> c \<in> set ids))"

section \<open>The timer and the cycles in flight\<close>

text \<open>
  \<open>startUpdateInterval\<close> hands \<open>setInterval\<close> an \<open>async\<close> callback that awaits
  \<open>broadcastStockUpdates\<close>. The timer fires the callback every \<open>UPDATE_INTERVAL\<close> until
  \<open>clearInterval\<close>; a firing does not wait for the promise of an earlier one.
  \<open>broadcastStockUpdates\<close> returns at once when \<open>subscriptions\<close> is empty and is
  otherwise suspended in its awaits until its last batch has returned. Neither
  function reads or writes a mark of a cycle that is under way. So the server is the
  registry together with the number of suspended cycles: \<open>Tick\<close> is one firing of the
  timer, \<open>Finished\<close> the return of one suspended cycle, and \<open>Handler\<close> a socket event.
\<close>

record server =
  reg :: registry
  in_flight :: nat

datatype server_event = Handler event | Tick | Finished

fun server_step ::
  "jsengine \<Rightarrow> (jsval \<Rightarrow> error_message + watchlist option) \<Rightarrow> server_event \<Rightarrow> server
     \<Rightarrow> server" where
  "server_step js db (Handler e) sv = sv\<lparr>reg := snd (step js db e (reg sv))\<rparr>"
| "server_step js db Tick sv =
     (if updateInterval (reg sv) then
        (if length (subscriptions (reg sv)) = 0 then sv
         else sv\<lparr>in_flight := Suc (in_flight sv)\<rparr>)
      else sv)"
| "server_step js db Finished sv = sv\<lparr>in_flight := in_flight sv - 1\<rparr>"

fun server_run ::
  "jsengine \<Rightarrow> (jsval \<Rightarrow> error_message + watchlist option) \<Rightarrow> server_event list \<Rightarrow> server
     \<Rightarrow> server" where
  "server_run js db [] sv = sv"
| "server_run js db (e # es) sv = server_run js db es (server_step js db e sv)"

definition server_init :: server where
  "server_init = \<lparr>reg = init, in_flight = 0\<rparr>"

section \<open>The registry as two relations\<close>

text \<open>
  \<open>clients subs s\<close> is the set stored under \<open>s\<close> (empty when \<open>s\<close> is no key) and
  \<open>held conns c\<close> the subscription set of \<open>c\<close> (empty when \<open>c\<close> is not registered).
  The invariant of the handlers: the two relations are converse to each other, no key
  of \<open>subscriptions\<close> has an empty set, the timer runs whenever there is a key, and no
  connection holds the empty symbol.
\<close>

definition clients :: "(symbol \<times> client_id list) list \<Rightarrow> symbol \<Rightarrow> client_id set" where
  "clients subs s = (case map_of subs s of None \<Rightarrow> {} | Some ids \<Rightarrow> set ids)"

definition held :: "(client_id \<times> connection) list \<Rightarrow> client_id \<Rightarrow> symbol set" where
  "held conns c = (case map_of conns c of None \<Rightarrow> {} | Some conn \<Rightarrow> set (conn_subscriptions conn))"

definition pruned :: "(symbol \<times> client_id list) list \<Rightarrow> bool" where
  "pruned subs \<longleftrightarrow> (\<forall>s ids. map_of subs s = Some ids \<longrightarrow> ids \<noteq> [])"

definition registry_inv :: "registry \<Rightarrow> bool" where
  "registry_inv st \<longleftrightarrow>
     (\<forall>c s. c \<in> clients (subscriptions st) s \<longleftrightarrow> s \<in> held (connections st) c)
     \<and> pruned (subscriptions st)
     \<and> (subscriptions st \<noteq> [] \<longrightarrow> updateInterval st)
     \<and> (\<forall>c. [] \<notin> held (connections st) c)"

definition core :: "registry \<Rightarrow> bool" where
  "core st \<longleftrightarrow>
     (\<forall>c s. c \<in> clients (subscriptions st) s \<longleftrightarrow> s \<in> held (connections st) c)
     \<and> pruned (subscriptions st)
     \<and> (\<forall>c. [] \<notin> held (connections st) c)"

section \<open>Reading the registry\<close>

text \<open>
  \<open>symbolsFor\<close> is the subscription set of a connection, empty for an unknown one;
  \<open>live\<close> is the test \<open>connection && connection.socket.connected\<close> of the fan-out.
  \<open>batch_stocks\<close> and \<open>batch_errors\<close> are what one batch adds to \<open>allUpdates\<close> and
  \<open>allErrors\<close>.
\<close>

definition symbolsFor :: "registry \<Rightarrow> client_id \<Rightarrow> symbol list" where
  "symbolsFor st c = (case map_of (connections st) c of None \<Rightarrow> [] | Some conn \<Rightarrow> conn_subscriptions conn)"

definition live :: "registry \<Rightarrow> client_id \<Rightarrow> bool" where
  "live st c = (case map_of (connections st) c of None \<Rightarrow> False | Some conn \<Rightarrow> connected conn)"

definition batch_stocks ::
  "(symbol list \<Rightarrow> error_message + 'q stock list \<times> (symbol \<times> error_message) list)
     \<Rightarrow> symbol list \<Rightarrow> 'q stock list" where
  "batch_stocks fetch batch = (case fetch batch of Inr (stocks, errors) \<Rightarrow> stocks | Inl e \<Rightarrow> [])"

definition batch_errors ::
  "(symbol list \<Rightarrow> error_message + 'q stock list \<times> (symbol \<times> error_message) list)
     \<Rightarrow> symbol list \<Rightarrow> (symbol \<times> error_message) list" where
  "batch_errors fetch batch =
     (case fetch batch of Inr (stocks, errors) \<Rightarrow> errors
      | Inl e \<Rightarrow> map (\<lambda>symbol. (symbol, e)) batch)"

text \<open>
  What a subscribe request asks for, entry by entry: the cleaned form of every string
  that is not blank after cleaning, and an error for every other entry.
\<close>

definition accepted_symbols :: "jsengine \<Rightarrow> jsval list \<Rightarrow> symbol set" where
  "accepted_symbols js xs =
     {trim js (toUpperCase js s) |s. JStr s \<in> set xs \<and> trim js (toUpperCase js s) \<noteq> []}"

definition rejected_entries :: "jsengine \<Rightarrow> jsval list \<Rightarrow> (jsval \<times> error_message) set" where
  "rejected_entries js xs =
     {(JStr s, Message ''Invalid symbol'') |s.
        JStr s \<in> set xs \<and> trim js (toUpperCase js s) = []}
     \<union> {(v, TypeError_message) |v. v \<in> set xs \<and> (\<forall>s. v \<noteq> JStr s)}"

text \<open>
  \<open>timer_exact\<close>: the timer is active exactly when \<open>subscriptions\<close> has a key.
  \<open>string_payloads\<close>: every array sent with an unsubscribe event holds strings only.
\<close>

fun all_strings :: "jsval list \<Rightarrow> bool" where
  "all_strings [] = True"
| "all_strings (JStr s # rest) = all_strings rest"
| "all_strings (v # rest) = False"

fun string_payloads :: "event list \<Rightarrow> bool" where
  "string_payloads [] = True"
| "string_payloads (Unsubscribe c d # es) =
     ((case destructure ''symbols'' d of Some (JArr xs) \<Rightarrow> all_strings xs | _ \<Rightarrow> True)
      \<and> string_payloads es)"
| "string_payloads (e # es) = string_payloads es"

definition timer_exact :: "registry \<Rightarrow> bool" where
  "timer_exact st \<longleftrightarrow> (updateInterval st \<longleftrightarrow> subscriptions st \<noteq> [])"

section \<open>Sample data\<close>

text \<open>
  \<open>ascii_engine\<close> is the engine on ASCII text: on a string of ASCII characters
  \<open>toUpperCase\<close> maps \<open>a\<close>..\<open>z\<close> to \<open>A\<close>..\<open>Z\<close> and \<open>trim\<close> strips tab, line feed,
  vertical tab, form feed, carriage return and space from both ends. All sample
  strings are ASCII. \<open>sym_n\<close> enumerates two-letter symbols \<open>AA\<close>, \<open>AB\<close>, ...;
  \<open>loaded n\<close> connects \<open>c1\<close> and subscribes it to the first \<open>n\<close> of them, which leads
  to the registry \<open>full n\<close>.
\<close>

definition upper_char :: "char \<Rightarrow> char" where
  "upper_char c =
     (let n = (of_char c :: nat) in if 97 \<le> n \<and> n \<le> 122 then char_of (n - 32) else c)"

definition is_space :: "char \<Rightarrow> bool" where
  "is_space c = (let n = (of_char c :: nat) in (9 \<le> n \<and> n \<le> 13) \<or> n = 32)"

definition ascii_engine :: jsengine where
  "ascii_engine =
     \<lparr>toUpperCase = map upper_char,
      trim = (\<lambda>s. rev (dropWhile is_space (rev (dropWhile is_space s))))\<rparr>"

abbreviation reached :: "event list \<Rightarrow> registry" where
  "reached es \<equiv> run ascii_engine Watchlist_findDefaultWatchlist es init"

abbreviation well_formed :: "event list \<Rightarrow> bool" where
  "well_formed es \<equiv> fresh_ids ascii_engine Watchlist_findDefaultWatchlist es init"

definition demo_trace :: "event list" where
  "demo_trace =
     [Connection ''c1'',
      Subscribe ''c1'' (JObj [(''symbols'', JArr [JStr '' aapl '', JStr ''msft'', JNum 7])]),
      Connection ''c2'',
      Subscribe ''c2'' (JObj [(''symbols'', JArr [JStr ''AAPL''])]),
      Unsubscribe ''c1'' (JObj [(''symbols'', JArr [JStr ''msft''])]),
      Disconnect ''c2'']"

definition sym_n :: "nat \<Rightarrow> symbol" where
  "sym_n n = [char_of (65 + n div 26), char_of (65 + n mod 26)]"

definition request :: "jsval list \<Rightarrow> jsval" where
  "request xs = JObj [(''symbols'', JArr xs)]"

definition loaded :: "nat \<Rightarrow> event list" where
  "loaded n = [Connection ''c1'', Subscribe ''c1'' (request (map (\<lambda>i. JStr (sym_n i)) [0..<n]))]"

definition conn_full :: "nat \<Rightarrow> connection" where
  "conn_full n = \<lparr>conn_subscriptions = map sym_n [0..<n], userId = JNull, connected = True\<rparr>"

definition full :: "nat \<Rightarrow> registry" where
  "full n =
     \<lparr>connections = [(''c1'', conn_full n)],
      subscriptions = map (\<lambda>i. (sym_n i, [''c1''])) [0..<n],
      updateInterval = (0 < n)\<rparr>"

definition five_new :: jsval where
  "five_new = request [JStr ''BW'', JStr ''BX'', JStr ''BY'', JStr ''BZ'', JStr ''CA'']"

definition two_new :: jsval where
  "two_new = request [JStr ''BW'', JStr ''BX'']"

definition mixed_request :: jsval where
  "mixed_request = request [JStr ''msft'', JStr ''  '', JNum 1]"

definition dup_request :: jsval where
  "dup_request = request [JStr '' aa '', JStr ''  '', JNum 1]"

definition stuck_trace :: "event list" where
  "stuck_trace =
     [Connection ''c1'',
      Subscribe ''c1'' (request [JStr ''AAPL'']),
      Unsubscribe ''c1'' (request [JStr ''AAPL'', JNum 42])]"

definition demo_api :: "unit api" where
  "demo_api =
     \<lparr>IEX_CLOUD_API_KEY = Some ''pk_test'',
      axios_get = (\<lambda>key syms.
        if ''AA'' \<in> set syms then Inl (Message ''timeout of 15000ms exceeded'')
        else Inr (Some (\<lambda>s. if s = ''BAD'' then None else Some (JStr s, ()))))\<rparr>"


definition fan_trace :: "event list" where
  "fan_trace =
     [Connection ''c1'', Subscribe ''c1'' (request [JStr ''bad'', JStr ''good'']),
      Connection ''c2'', Subscribe ''c2'' (request [JStr ''good'']),
      Connection ''c3'', Subscribe ''c3'' (request [JStr ''bad''])]"

section \<open>Consistency of the registry\<close>

lemma removeAll_Nil_iff: "removeAll c xs = [] \<longleftrightarrow> set xs \<subseteq> {c}"
  by (induction xs) auto

lemma clients_remove_client:
  "clients (remove_client s c subs) s' = (if s' = s then clients subs s - {c} else clients subs s')"
  by (auto simp: clients_def remove_client_def set_delete_def Let_def AList.delete_conv' AList.update_conv'
      removeAll_Nil_iff split: option.splits if_splits)

lemma pruned_remove_client: "pruned subs \<Longrightarrow> pruned (remove_client s c subs)"
  by (auto simp: pruned_def remove_client_def set_delete_def Let_def AList.delete_conv' AList.update_conv'
      split: option.splits if_splits)

lemma clients_fold_remove:
  "clients (fold (\<lambda>symbol. remove_client symbol c) xs subs) s =
     (if s \<in> set xs then clients subs s - {c} else clients subs s)"
  by (induction xs arbitrary: subs) (auto simp: clients_remove_client)

lemma pruned_fold_remove: "pruned subs \<Longrightarrow> pruned (fold (\<lambda>symbol. remove_client symbol c) xs subs)"
  by (induction xs arbitrary: subs) (auto simp: pruned_remove_client)

lemma held_delete: "held (AList.delete c conns) c' = (if c' = c then {} else held conns c')"
  by (auto simp: held_def AList.delete_conv')

lemma held_add:
  "held (AList.map_entry c (\<lambda>k. k\<lparr>conn_subscriptions := set_add x (conn_subscriptions k)\<rparr>) conns) c' =
     (if c' = c \<and> map_of conns c \<noteq> None then insert x (held conns c) else held conns c')"
  by (auto simp: held_def AList.map_of_map_entry set_add_def split: option.splits)

lemma held_del:
  "held (AList.map_entry c (\<lambda>k. k\<lparr>conn_subscriptions := set_delete x (conn_subscriptions k)\<rparr>) conns) c' =
     (if c' = c then held conns c - {x} else held conns c')"
  by (auto simp: held_def AList.map_of_map_entry set_delete_def split: option.splits)

lemma clients_add:
  "clients (AList.map_entry s (set_add c)
      (case map_of subs s of None \<Rightarrow> AList.update s [] subs | Some ids \<Rightarrow> subs)) s' =
     (if s' = s then insert c (clients subs s) else clients subs s')"
  by (auto simp: clients_def AList.map_of_map_entry AList.update_conv' set_add_def split: option.splits)

lemma pruned_add:
  "pruned subs \<Longrightarrow> pruned (AList.map_entry s (set_add c)
      (case map_of subs s of None \<Rightarrow> AList.update s [] subs | Some ids \<Rightarrow> subs))"
  by (auto simp: pruned_def AList.map_of_map_entry AList.update_conv' set_add_def split: option.splits if_splits)

lemma registry_inv_core:
  "registry_inv st \<longleftrightarrow> core st \<and> (subscriptions st \<noteq> [] \<longrightarrow> updateInterval st)"
  by (auto simp: registry_inv_def core_def)

lemma subscribe_symbol_core:
  assumes "map_of (connections st) c \<noteq> None" and "core st"
    and "subscribe_symbol js c v (st, a, e) = (st', a', e')"
  shows "core st' \<and> map_of (connections st') c \<noteq> None \<and> updateInterval st' = updateInterval st"
proof (cases v)
  case (JStr r)
  show ?thesis
  proof (cases "trim js (toUpperCase js r) = []")
    case True
    with assms JStr show ?thesis by simp
  next
    case False
    with assms JStr show ?thesis
      by (auto simp: core_def Let_def held_add clients_add pruned_add AList.map_of_map_entry
          split: if_splits)
  qed
qed (use assms in auto)

lemma fold_subscribe_core:
  assumes "map_of (connections st) c \<noteq> None" and "core st"
    and "fold (subscribe_symbol js c) xs (st, a, e) = (st', a', e')"
  shows "core st' \<and> map_of (connections st') c \<noteq> None \<and> updateInterval st' = updateInterval st"
  using assms
proof (induction xs arbitrary: st a e)
  case Nil
  then show ?case by simp
next
  case (Cons x xs)
  obtain st1 a1 e1 where s1: "subscribe_symbol js c x (st, a, e) = (st1, a1, e1)"
    by (cases "subscribe_symbol js c x (st, a, e)") auto
  from subscribe_symbol_core [OF Cons.prems(1,2) s1]
  have "core st1" "map_of (connections st1) c \<noteq> None" "updateInterval st1 = updateInterval st"
    by auto
  moreover from Cons.prems(3) s1 have "fold (subscribe_symbol js c) xs (st1, a1, e1) = (st', a', e')"
    by simp
  ultimately show ?case using Cons.IH [of st1 a1 e1] by simp
qed

lemma on_subscribe_inv:
  assumes "registry_inv st"
  shows "registry_inv (snd (on_subscribe js c d st))"
proof (cases "\<exists>symbols conn. destructure ''symbols'' d = Some symbols \<and> truthy symbols
    \<and> isArray symbols \<and> map_of (connections st) c = Some conn
    \<and> \<not> length (conn_subscriptions conn) + length (elements symbols) > MAX_SUBSCRIPTIONS_PER_CLIENT")
  case True
  then obtain symbols conn where h: "destructure ''symbols'' d = Some symbols" "truthy symbols"
    "isArray symbols" "map_of (connections st) c = Some conn"
    "\<not> length (conn_subscriptions conn) + length (elements symbols) > MAX_SUBSCRIPTIONS_PER_CLIENT"
    by blast
  obtain st' a' e' where f: "fold (subscribe_symbol js c) (elements symbols) (st, [], []) = (st', a', e')"
    by (cases "fold (subscribe_symbol js c) (elements symbols) (st, [], [])") auto
  have "core st" using assms by (simp add: registry_inv_core)
  with fold_subscribe_core [OF _ _ f] h(4)
  have c': "core st'" and t: "updateInterval st' = updateInterval st" by auto
  have "snd (on_subscribe js c d st) =
      (if subscriptions st' \<noteq> [] \<and> \<not> updateInterval st' then startUpdateInterval st' else st')"
    using h f by (simp add: on_subscribe_def)
  with c' show ?thesis
    by (auto simp: registry_inv_core startUpdateInterval_def core_def)
next
  case False
  then have "snd (on_subscribe js c d st) = st"
    by (auto simp: on_subscribe_def split: option.splits)
  with assms show ?thesis by simp
qed

lemma remove_client_Nil: "remove_client s c [] = []"
  by (simp add: remove_client_def)

lemma unsubscribe_symbols_core:
  assumes "core st"
  shows "case unsubscribe_symbols js c xs st acc of
           Inl st' \<Rightarrow> core st' \<and> updateInterval st' = updateInterval st
                       \<and> (subscriptions st = [] \<longrightarrow> subscriptions st' = [])
         | Inr (st', r) \<Rightarrow> core st' \<and> updateInterval st' = updateInterval st
                       \<and> (subscriptions st = [] \<longrightarrow> subscriptions st' = [])"
  using assms
proof (induction js c xs st acc rule: unsubscribe_symbols.induct)
  case (1 js clientId st unsubscribedSymbols)
  then show ?case by simp
next
  case (2 js clientId s rest st unsubscribedSymbols)
  let ?k = "trim js (toUpperCase js s)"
  let ?st1 = "st\<lparr>connections :=
              AList.map_entry clientId
                (\<lambda>c. c\<lparr>conn_subscriptions := set_delete ?k (conn_subscriptions c)\<rparr>)
                (connections st),
            subscriptions := remove_client ?k clientId (subscriptions st)\<rparr>"
  have "core ?st1" using "2.prems"
    by (auto simp: core_def held_del clients_remove_client pruned_remove_client)
  from "2.IH" [OF refl this] show ?case
    by (auto simp: Let_def remove_client_Nil split: sum.splits)
qed simp_all

lemma on_unsubscribe_inv:
  assumes "registry_inv st"
  shows "registry_inv (snd (on_unsubscribe js c d st))"
proof -
  have c0: "core st" and t0: "subscriptions st \<noteq> [] \<longrightarrow> updateInterval st"
    using assms by (simp_all add: registry_inv_core)
  show ?thesis
    using unsubscribe_symbols_core [OF c0, where js = js and c = c
        and xs = "elements (the (destructure ''symbols'' d))" and acc = "[]"] assms t0
    by (auto simp: on_unsubscribe_def registry_inv_core stopUpdateInterval_def core_def
        split: option.splits sum.splits)
qed

lemma on_disconnect_inv:
  assumes "registry_inv st"
  shows "registry_inv (on_disconnect c st)"
proof -
  have c0: "core st" and t0: "subscriptions st \<noteq> [] \<longrightarrow> updateInterval st"
    using assms by (simp_all add: registry_inv_core)
  define st1 where "st1 = (case map_of (connections st) c of
                   None \<Rightarrow> st
                 | Some connection \<Rightarrow>
                     st\<lparr>subscriptions :=
                          fold (\<lambda>symbol. remove_client symbol c)
                            (conn_subscriptions connection) (subscriptions st)\<rparr>)"
  define st2 where "st2 = st1\<lparr>connections := AList.delete c (connections st1)\<rparr>"
  have cl: "clients (subscriptions st1) s = clients (subscriptions st) s - {c}" for s
  proof (cases "map_of (connections st) c")
    case None
    then have "held (connections st) c = {}" by (simp add: held_def)
    with c0 have "c \<notin> clients (subscriptions st) s" by (simp add: core_def)
    with None show ?thesis by (simp add: st1_def)
  next
    case (Some conn)
    then have h: "held (connections st) c = set (conn_subscriptions conn)" by (simp add: held_def)
    have "s \<notin> set (conn_subscriptions conn) \<Longrightarrow> c \<notin> clients (subscriptions st) s"
      using c0 h by (simp add: core_def)
    with Some show ?thesis by (auto simp: st1_def clients_fold_remove)
  qed
  have pr: "pruned (subscriptions st1)"
    using c0 by (auto simp: st1_def core_def pruned_fold_remove split: option.splits)
  have cn: "connections st1 = connections st" and ti: "updateInterval st1 = updateInterval st"
    by (auto simp: st1_def split: option.splits)
  have tm: "subscriptions st1 \<noteq> [] \<longrightarrow> subscriptions st \<noteq> []"
  proof -
    have "fold (\<lambda>symbol. remove_client symbol c) xs [] = []" for xs
      by (induction xs) (simp_all add: remove_client_Nil)
    then show ?thesis by (auto simp: st1_def split: option.splits)
  qed
  have "core st2"
    using c0 cl pr cn by (auto simp: core_def st2_def held_delete)
  moreover have "subscriptions st2 \<noteq> [] \<longrightarrow> updateInterval st2"
    using tm ti t0 by (simp add: st2_def)
  moreover have "on_disconnect c st =
      (if subscriptions st2 = [] \<and> updateInterval st2 then stopUpdateInterval st2 else st2)"
    by (simp add: on_disconnect_def st1_def st2_def Let_def)
  ultimately show ?thesis
    by (auto simp: registry_inv_core stopUpdateInterval_def core_def)
qed

lemma on_connection_inv:
  assumes "registry_inv st" and "map_of (connections st) c = None"
  shows "registry_inv (on_connection c st)"
proof -
  have "held (AList.update c \<lparr>conn_subscriptions = [], userId = JNull, connected = True\<rparr>
          (connections st)) c' = held (connections st) c'" for c'
    using assms(2) by (auto simp: held_def AList.update_conv')
  with assms(1) show ?thesis
    by (simp add: registry_inv_def on_connection_def)
qed

lemma on_authenticate_inv:
  assumes "registry_inv st"
  shows "registry_inv (snd (on_authenticate c d st))"
proof -
  have "held (AList.map_entry c (\<lambda>k. k\<lparr>userId := u\<rparr>) (connections st)) c' = held (connections st) c'"
    for c' u
    by (auto simp: held_def AList.map_of_map_entry split: option.splits)
  with assms show ?thesis
    by (auto simp: on_authenticate_def registry_inv_def split: option.splits)
qed

lemma step_inv:
  assumes "registry_inv st"
    and "case e of Connection c \<Rightarrow> map_of (connections st) c = None | _ \<Rightarrow> True"
  shows "registry_inv (snd (step js db e st))"
  using assms
  by (cases e)
    (auto simp: on_connection_inv on_authenticate_inv on_subscribe_inv on_unsubscribe_inv
      on_disconnect_inv on_ping_def on_subscribe_watchlist_def split: option.splits sum.splits)

lemma run_inv: "fresh_ids js db es st \<Longrightarrow> registry_inv st \<Longrightarrow> registry_inv (run js db es st)"
proof (induction es arbitrary: st)
  case Nil
  then show ?case by simp
next
  case (Cons e es)
  from Cons.prems have "registry_inv (snd (step js db e st))"
    by (intro step_inv) auto
  with Cons show ?case by simp
qed

lemma init_inv: "registry_inv init"
  by (simp add: registry_inv_def init_def clients_def held_def pruned_def)

lemma inv_consistent:
  assumes "registry_inv st"
  shows "registry_consistent st"
proof -
  have a: "c \<in> clients (subscriptions st) s \<longleftrightarrow> s \<in> held (connections st) c" for c s
    using assms by (simp add: registry_inv_def)
  have p: "pruned (subscriptions st)" using assms by (simp add: registry_inv_def)
  have k: "s \<in> fst ` set (subscriptions st) \<longleftrightarrow> map_of (subscriptions st) s \<noteq> None" for s
    by (simp add: map_of_eq_None_iff)
  have 1: "(s \<in> fst ` set (subscriptions st)) =
           (\<exists>c conn. map_of (connections st) c = Some conn \<and> s \<in> set (conn_subscriptions conn))" for s
  proof
    assume "s \<in> fst ` set (subscriptions st)"
    then obtain ids where i: "map_of (subscriptions st) s = Some ids" using k by auto
    with p have "ids \<noteq> []" by (auto simp: pruned_def)
    then obtain c where "c \<in> set ids" by (cases ids) auto
    with i have "c \<in> clients (subscriptions st) s" by (simp add: clients_def)
    then have "s \<in> held (connections st) c" by (simp add: a)
    then show "\<exists>c conn. map_of (connections st) c = Some conn \<and> s \<in> set (conn_subscriptions conn)"
      by (auto simp: held_def split: option.splits)
  next
    assume "\<exists>c conn. map_of (connections st) c = Some conn \<and> s \<in> set (conn_subscriptions conn)"
    then obtain c conn where "map_of (connections st) c = Some conn" "s \<in> set (conn_subscriptions conn)"
      by blast
    then have "s \<in> held (connections st) c" by (simp add: held_def)
    then have "c \<in> clients (subscriptions st) s" by (simp add: a)
    then show "s \<in> fst ` set (subscriptions st)"
      unfolding k by (auto simp: clients_def split: option.splits)
  qed
  have 2: "map_of (connections st) c = Some conn \<Longrightarrow>
           (s \<in> set (conn_subscriptions conn)) =
           (\<exists>ids. map_of (subscriptions st) s = Some ids \<and> c \<in> set ids)" for c conn s
    using a [of c s] by (auto simp: held_def clients_def split: option.splits)
  from 1 2 show ?thesis unfolding registry_consistent_def by blast
qed

text \<open>
  C1. After any sequence of connection, authenticate, subscribe, unsubscribe,
  subscribe_watchlist, ping and disconnect events from the empty registry, in which
  every new connection has a fresh identifier, the registry is consistent: a symbol is a
  key of \<open>subscriptions\<close> exactly when some connection holds it, and a connection holds a
  symbol exactly when its identifier is in the symbol's set.
\<close>

theorem registry_consistent_run:
  "fresh_ids js db es init \<Longrightarrow> registry_consistent (run js db es init)"
  by (rule inv_consistent) (rule run_inv [OF _ init_inv])

theorem registry_consistent_run_witness:
  "well_formed demo_trace \<and> registry_consistent (reached demo_trace)"
proof -
  have h: "well_formed demo_trace"
    by code_simp
  from registry_consistent_run [OF h] h show ?thesis
    by simp
qed

section \<open>The subscription limit\<close>

lemma on_subscribe_over_limit:
  assumes "destructure ''symbols'' d = Some (JArr xs)"
    and "map_of (connections st) c = Some conn"
    and "length (conn_subscriptions conn) + length xs > MAX_SUBSCRIPTIONS_PER_CLIENT"
  shows "on_subscribe js c d st =
    ([Emit c (Subscription_error ''Maximum 50 subscriptions allowed per client'')], st)"
  using assms by (simp add: on_subscribe_def)

lemma on_subscribe_under_limit:
  assumes "destructure ''symbols'' d = Some (JArr xs)"
    and "map_of (connections st) c = Some conn"
    and "\<not> length (conn_subscriptions conn) + length xs > MAX_SUBSCRIPTIONS_PER_CLIENT"
    and "fold (subscribe_symbol js c) xs (st, [], []) = (st', subscribedSymbols, errors)"
  shows "on_subscribe js c d st =
    (Emit c (Subscribed subscribedSymbols errors) #
       (if subscribedSymbols \<noteq> [] then [SendInitialStockData c subscribedSymbols] else []),
     if subscriptions st' \<noteq> [] \<and> \<not> updateInterval st' then startUpdateInterval st' else st')"
  using assms by (simp add: on_subscribe_def)

lemma symbolsFor_subscribe_symbol:
  assumes "subscribe_symbol js c v (st, a, e) = (st', a', e')"
  shows "length (symbolsFor st' c) \<le> Suc (length (symbolsFor st c))
     \<and> length a' + length e' = Suc (length a + length e)"
proof (cases v)
  case (JStr r)
  with assms show ?thesis
    by (auto simp: symbolsFor_def Let_def AList.map_of_map_entry set_add_def
        split: if_splits option.splits)
qed (use assms in auto)

lemma symbolsFor_fold_subscribe:
  assumes "fold (subscribe_symbol js c) xs (st, a, e) = (st', a', e')"
  shows "length (symbolsFor st' c) \<le> length (symbolsFor st c) + length xs
     \<and> length a' + length e' = length a + length e + length xs"
  using assms
proof (induction xs arbitrary: st a e)
  case Nil
  then show ?case by simp
next
  case (Cons x xs)
  obtain st1 a1 e1 where s1: "subscribe_symbol js c x (st, a, e) = (st1, a1, e1)"
    by (cases "subscribe_symbol js c x (st, a, e)") auto
  with Cons.prems have "fold (subscribe_symbol js c) xs (st1, a1, e1) = (st', a', e')" by simp
  from Cons.IH [OF this] symbolsFor_subscribe_symbol [OF s1] show ?case by simp
qed

lemma loaded_48: "reached (loaded 48) = full 48"
  by code_simp

lemma loaded_50: "reached (loaded 50) = full 50"
  by code_simp

lemma connection_full: "map_of (connections (full n)) ''c1'' = Some (conn_full n)"
  by (simp add: full_def)

lemma length_conn_full: "length (conn_subscriptions (conn_full n)) = n"
  by (simp add: conn_full_def)

text \<open>
  C9. The limit check of the subscribe handler adds the length of the requested array,
  as sent, to the size of the connection's set, before any symbol is cleaned or
  compared: the reply is the limit error exactly when that sum exceeds 50, whatever the
  array holds, and then the registry is unchanged. So a full connection that asks for
  a symbol it already has, a blank string and a number is rejected.
\<close>

theorem subscribe_limit_counts_raw_length:
  assumes "destructure ''symbols'' d = Some (JArr xs)"
    and "map_of (connections st) c = Some conn"
  shows "(fst (on_subscribe js c d st) =
            [Emit c (Subscription_error ''Maximum 50 subscriptions allowed per client'')])
         = (length (conn_subscriptions conn) + length xs > MAX_SUBSCRIPTIONS_PER_CLIENT)
     \<and> (length (conn_subscriptions conn) + length xs > MAX_SUBSCRIPTIONS_PER_CLIENT
          \<longrightarrow> snd (on_subscribe js c d st) = st)"
proof (cases "length (conn_subscriptions conn) + length xs > MAX_SUBSCRIPTIONS_PER_CLIENT")
  case True
  with on_subscribe_over_limit [OF assms] show ?thesis by simp
next
  case False
  obtain st' a' e' where f: "fold (subscribe_symbol js c) xs (st, [], []) = (st', a', e')"
    by (cases "fold (subscribe_symbol js c) xs (st, [], [])") auto
  from on_subscribe_under_limit [OF assms False f] False show ?thesis by simp
qed

theorem subscribe_limit_counts_raw_length_witness:
  "destructure ''symbols'' dup_request = Some (JArr [JStr '' aa '', JStr ''  '', JNum 1])
   \<and> map_of (connections (reached (loaded 50))) ''c1'' = Some (conn_full 50)
   \<and> length (conn_subscriptions (conn_full 50)) + length [JStr '' aa '', JStr ''  '', JNum 1]
        > MAX_SUBSCRIPTIONS_PER_CLIENT
   \<and> trim ascii_engine (toUpperCase ascii_engine '' aa '') \<in> set (conn_subscriptions (conn_full 50))
   \<and> fst (on_subscribe ascii_engine ''c1'' dup_request (reached (loaded 50))) =
        [Emit ''c1'' (Subscription_error ''Maximum 50 subscriptions allowed per client'')]
   \<and> snd (on_subscribe ascii_engine ''c1'' dup_request (reached (loaded 50))) =
        reached (loaded 50)"
proof -
  have d: "destructure ''symbols'' dup_request = Some (JArr [JStr '' aa '', JStr ''  '', JNum 1])"
    by (simp add: dup_request_def request_def)
  have c: "map_of (connections (reached (loaded 50))) ''c1'' = Some (conn_full 50)"
    by (simp add: loaded_50 connection_full)
  have l: "length (conn_subscriptions (conn_full 50)) + length [JStr '' aa '', JStr ''  '', JNum 1]
        > MAX_SUBSCRIPTIONS_PER_CLIENT"
    by (simp add: length_conn_full MAX_SUBSCRIPTIONS_PER_CLIENT_def)
  have m: "trim ascii_engine (toUpperCase ascii_engine '' aa '') \<in> set (conn_subscriptions (conn_full 50))"
    by code_simp
  from subscribe_limit_counts_raw_length [OF d c] l d c m show ?thesis
    by blast
qed

text \<open>
  C2, as stated, fails: a connection with 48 subscriptions that asks for 5 new symbols
  gets \<open>subscription_error\<close>, none of the 5 is accepted and its set keeps 48 symbols.
\<close>

theorem subscribe_cap_counterexample:
  "length (symbolsFor (reached (loaded 48)) ''c1'') = 48
   \<and> fst (on_subscribe ascii_engine ''c1'' five_new (reached (loaded 48))) =
        [Emit ''c1'' (Subscription_error ''Maximum 50 subscriptions allowed per client'')]
   \<and> length (symbolsFor (snd (on_subscribe ascii_engine ''c1'' five_new (reached (loaded 48))))
        ''c1'') \<noteq> 50"
proof -
  have d: "destructure ''symbols'' five_new =
      Some (JArr [JStr ''BW'', JStr ''BX'', JStr ''BY'', JStr ''BZ'', JStr ''CA''])"
    by (simp add: five_new_def request_def)
  have "on_subscribe ascii_engine ''c1'' five_new (full 48) =
      ([Emit ''c1'' (Subscription_error ''Maximum 50 subscriptions allowed per client'')], full 48)"
    by (rule on_subscribe_over_limit [OF d connection_full])
      (simp add: length_conn_full MAX_SUBSCRIPTIONS_PER_CLIENT_def)
  then show ?thesis
    by (simp add: loaded_48 symbolsFor_def connection_full length_conn_full)
qed

lemma subscribe_symbol_entries:
  assumes "subscribe_symbol js c v (st, a, e) = (st', a', e')"
    and "map_of (connections st) c \<noteq> None"
  shows "set a' = set a \<union> accepted_symbols js [v]"
    and "set e' = set e \<union> rejected_entries js [v]"
    and "held (connections st') c = held (connections st) c \<union> accepted_symbols js [v]"
    and "map_of (connections st') c \<noteq> None"
proof -
  show "set a' = set a \<union> accepted_symbols js [v]"
    using assms(1)
    by (cases v) (auto simp: accepted_symbols_def Let_def split: if_splits)
  show "set e' = set e \<union> rejected_entries js [v]"
    using assms(1)
    by (cases v) (auto simp: rejected_entries_def Let_def split: if_splits)
  show "held (connections st') c = held (connections st) c \<union> accepted_symbols js [v]"
    using assms
    by (cases v) (auto simp: accepted_symbols_def Let_def held_add split: if_splits)
  show "map_of (connections st') c \<noteq> None"
    using assms
    by (cases v) (auto simp: Let_def AList.map_of_map_entry split: if_splits)
qed

lemma accepted_symbols_Cons:
  "accepted_symbols js (x # xs) = accepted_symbols js [x] \<union> accepted_symbols js xs"
  by (auto simp: accepted_symbols_def)

lemma rejected_entries_Cons:
  "rejected_entries js (x # xs) = rejected_entries js [x] \<union> rejected_entries js xs"
  by (auto simp: rejected_entries_def)

lemma accepted_symbols_strings:
  "accepted_symbols js [] = {}"
  "accepted_symbols js (JStr s # xs) =
     (if trim js (toUpperCase js s) = [] then accepted_symbols js xs
      else insert (trim js (toUpperCase js s)) (accepted_symbols js xs))"
  by (auto simp: accepted_symbols_def)

lemma rejected_entries_strings:
  "rejected_entries js [] = {}"
  "rejected_entries js (JStr s # xs) =
     (if trim js (toUpperCase js s) = []
      then insert (JStr s, Message ''Invalid symbol'') (rejected_entries js xs)
      else rejected_entries js xs)"
  by (auto simp: rejected_entries_def)

lemma accepted_symbols_other:
  "(\<forall>s. v \<noteq> JStr s) \<Longrightarrow> accepted_symbols js (v # xs) = accepted_symbols js xs"
  by (auto simp: accepted_symbols_def)

lemma rejected_entries_other:
  "(\<forall>s. v \<noteq> JStr s) \<Longrightarrow>
     rejected_entries js (v # xs) = insert (v, TypeError_message) (rejected_entries js xs)"
  by (auto simp: rejected_entries_def)

lemma fold_subscribe_entries:
  assumes "fold (subscribe_symbol js c) xs (st, a, e) = (st', a', e')"
    and "map_of (connections st) c \<noteq> None"
  shows "set a' = set a \<union> accepted_symbols js xs
     \<and> set e' = set e \<union> rejected_entries js xs
     \<and> held (connections st') c = held (connections st) c \<union> accepted_symbols js xs"
  using assms
proof (induction xs arbitrary: st a e)
  case Nil
  then show ?case by (simp add: accepted_symbols_def rejected_entries_def)
next
  case (Cons x xs)
  obtain st1 a1 e1 where s1: "subscribe_symbol js c x (st, a, e) = (st1, a1, e1)"
    by (cases "subscribe_symbol js c x (st, a, e)") auto
  note h = subscribe_symbol_entries [OF s1 Cons.prems(2)]
  from Cons.prems(1) s1 have "fold (subscribe_symbol js c) xs (st1, a1, e1) = (st', a', e')"
    by simp
  from Cons.IH [OF this h(4)] h(1,2,3) show ?case
    unfolding accepted_symbols_Cons [of js x xs] rejected_entries_Cons [of js x xs]
    by (simp add: Un_assoc)
qed

text \<open>
  C2, amended. The limit is all or nothing. When the size of the connection's set plus
  the length of the requested array exceeds 50, the request is rejected as a whole with
  \<open>subscription_error\<close> and the registry is unchanged. Otherwise the reply is
  \<open>subscribed\<close>: its symbols are the cleaned forms of the requested strings that are
  not blank, its errors are the other requested entries, each requested entry is in
  one of the two lists, the connection's set is its old set with the accepted symbols
  added, and it has at most 50 symbols.
\<close>

theorem subscribe_cap_all_or_nothing:
  assumes "destructure ''symbols'' d = Some (JArr xs)"
    and "map_of (connections st) c = Some conn"
  shows "if length (conn_subscriptions conn) + length xs > MAX_SUBSCRIPTIONS_PER_CLIENT
         then on_subscribe js c d st =
                ([Emit c (Subscription_error ''Maximum 50 subscriptions allowed per client'')], st)
         else (\<exists>accepted rejected.
                 fst (on_subscribe js c d st) =
                   Emit c (Subscribed accepted rejected) #
                     (if accepted \<noteq> [] then [SendInitialStockData c accepted] else [])
                 \<and> set accepted = accepted_symbols js xs
                 \<and> set rejected = rejected_entries js xs
                 \<and> length accepted + length rejected = length xs)
              \<and> set (symbolsFor (snd (on_subscribe js c d st)) c)
                  = set (conn_subscriptions conn) \<union> accepted_symbols js xs
              \<and> length (symbolsFor (snd (on_subscribe js c d st)) c)
                  \<le> MAX_SUBSCRIPTIONS_PER_CLIENT"
proof (cases "length (conn_subscriptions conn) + length xs > MAX_SUBSCRIPTIONS_PER_CLIENT")
  case True
  with on_subscribe_over_limit [OF assms] show ?thesis by simp
next
  case False
  obtain st' a' e' where f: "fold (subscribe_symbol js c) xs (st, [], []) = (st', a', e')"
    by (cases "fold (subscribe_symbol js c) xs (st, [], [])") auto
  note r = on_subscribe_under_limit [OF assms False f]
  from symbolsFor_fold_subscribe [OF f] assms(2) False
  have n: "length (symbolsFor st' c) \<le> MAX_SUBSCRIPTIONS_PER_CLIENT"
    and l: "length a' + length e' = length xs"
    by (simp_all add: symbolsFor_def)
  from fold_subscribe_entries [OF f] assms(2)
  have a: "set a' = accepted_symbols js xs" and e: "set e' = rejected_entries js xs"
    and h: "held (connections st') c = set (conn_subscriptions conn) \<union> accepted_symbols js xs"
    by (simp_all add: held_def)
  have s: "symbolsFor (snd (on_subscribe js c d st)) c = symbolsFor st' c"
    using r by (simp add: startUpdateInterval_def symbolsFor_def)
  have "set (symbolsFor st' c) = held (connections st') c"
    by (simp add: symbolsFor_def held_def split: option.splits)
  with r False n l a e h s show ?thesis
    by auto
qed

text \<open>
  Three requests: one with a new symbol, a blank string and a number, from a
  connection that holds \<open>AAPL\<close>; two new symbols from a connection that holds 48; and
  five new symbols from the same connection.
\<close>

theorem subscribe_cap_all_or_nothing_witness:
  "destructure ''symbols'' mixed_request = Some (JArr [JStr ''msft'', JStr ''  '', JNum 1])
   \<and> map_of (connections (reached demo_trace)) ''c1''
       = Some \<lparr>conn_subscriptions = [''AAPL''], userId = JNull, connected = True\<rparr>
   \<and> (\<exists>accepted rejected.
         fst (on_subscribe ascii_engine ''c1'' mixed_request (reached demo_trace)) =
           [Emit ''c1'' (Subscribed accepted rejected), SendInitialStockData ''c1'' accepted]
         \<and> set accepted = {''MSFT''}
         \<and> set rejected = {(JStr ''  '', Message ''Invalid symbol''), (JNum 1, TypeError_message)})
   \<and> set (symbolsFor (snd (on_subscribe ascii_engine ''c1'' mixed_request (reached demo_trace)))
        ''c1'') = {''AAPL'', ''MSFT''}
   \<and> destructure ''symbols'' two_new = Some (JArr [JStr ''BW'', JStr ''BX''])
   \<and> map_of (connections (reached (loaded 48))) ''c1'' = Some (conn_full 48)
   \<and> (\<exists>accepted rejected.
         fst (on_subscribe ascii_engine ''c1'' two_new (reached (loaded 48))) =
           [Emit ''c1'' (Subscribed accepted rejected), SendInitialStockData ''c1'' accepted]
         \<and> set accepted = {''BW'', ''BX''} \<and> rejected = [])
   \<and> ''BX'' \<in> set (symbolsFor (snd (on_subscribe ascii_engine ''c1'' two_new
        (reached (loaded 48)))) ''c1'')
   \<and> length (symbolsFor (snd (on_subscribe ascii_engine ''c1'' two_new (reached (loaded 48))))
        ''c1'') \<le> MAX_SUBSCRIPTIONS_PER_CLIENT
   \<and> destructure ''symbols'' five_new =
        Some (JArr [JStr ''BW'', JStr ''BX'', JStr ''BY'', JStr ''BZ'', JStr ''CA''])
   \<and> on_subscribe ascii_engine ''c1'' five_new (reached (loaded 48)) =
        ([Emit ''c1'' (Subscription_error ''Maximum 50 subscriptions allowed per client'')],
         reached (loaded 48))"
proof -
  let ?conn = "\<lparr>conn_subscriptions = [''AAPL''], userId = JNull, connected = True\<rparr>"
  let ?mixed = "[JStr ''msft'', JStr ''  '', JNum 1]"
  let ?m = "on_subscribe ascii_engine ''c1'' mixed_request (reached demo_trace)"
  have md: "destructure ''symbols'' mixed_request = Some (JArr ?mixed)"
    by (simp add: mixed_request_def request_def)
  have mc: "map_of (connections (reached demo_trace)) ''c1'' = Some ?conn"
    by code_simp
  have mk: "trim ascii_engine (toUpperCase ascii_engine ''msft'') = ''MSFT''"
    "trim ascii_engine (toUpperCase ascii_engine ''  '') = []"
    by code_simp+
  have ma: "accepted_symbols ascii_engine ?mixed = {''MSFT''}"
    by (simp add: accepted_symbols_strings accepted_symbols_other mk)
  have mr: "rejected_entries ascii_engine ?mixed
      = {(JStr ''  '', Message ''Invalid symbol''), (JNum 1, TypeError_message)}"
    by (simp add: rejected_entries_strings rejected_entries_other mk)
  have mlim: "\<not> length (conn_subscriptions ?conn) + length ?mixed
      > MAX_SUBSCRIPTIONS_PER_CLIENT"
    by (simp add: MAX_SUBSCRIPTIONS_PER_CLIENT_def)
  have "(\<exists>accepted rejected.
           fst ?m = Emit ''c1'' (Subscribed accepted rejected) #
             (if accepted \<noteq> [] then [SendInitialStockData ''c1'' accepted] else [])
           \<and> set accepted = accepted_symbols ascii_engine ?mixed
           \<and> set rejected = rejected_entries ascii_engine ?mixed
           \<and> length accepted + length rejected = length ?mixed)
        \<and> set (symbolsFor (snd ?m) ''c1'')
            = set (conn_subscriptions ?conn) \<union> accepted_symbols ascii_engine ?mixed
        \<and> length (symbolsFor (snd ?m) ''c1'') \<le> MAX_SUBSCRIPTIONS_PER_CLIENT"
    using subscribe_cap_all_or_nothing [OF md mc, where js = ascii_engine] mlim
    by (simp only: if_False)
  then obtain macc mrej where
    m1: "fst ?m = Emit ''c1'' (Subscribed macc mrej) #
             (if macc \<noteq> [] then [SendInitialStockData ''c1'' macc] else [])"
    and m2: "set macc = accepted_symbols ascii_engine ?mixed"
    and m3: "set mrej = rejected_entries ascii_engine ?mixed"
    and m4: "set (symbolsFor (snd ?m) ''c1'')
            = set (conn_subscriptions ?conn) \<union> accepted_symbols ascii_engine ?mixed"
    by (elim conjE exE)
  from m2 ma have macc: "set macc = {''MSFT''}" by simp
  from m3 mr have mrej: "set mrej
      = {(JStr ''  '', Message ''Invalid symbol''), (JNum 1, TypeError_message)}" by simp
  have mne: "macc \<noteq> []"
  proof
    assume "macc = []"
    with macc show False by simp
  qed
  then have me: "(if macc \<noteq> [] then [SendInitialStockData ''c1'' macc] else [])
      = [SendInitialStockData ''c1'' macc]"
    by simp
  have m6: "fst ?m = [Emit ''c1'' (Subscribed macc mrej), SendInitialStockData ''c1'' macc]"
    using m1 unfolding me .
  have m7: "\<exists>accepted rejected.
         fst ?m = [Emit ''c1'' (Subscribed accepted rejected), SendInitialStockData ''c1'' accepted]
         \<and> set accepted = {''MSFT''}
         \<and> set rejected = {(JStr ''  '', Message ''Invalid symbol''), (JNum 1, TypeError_message)}"
    using m6 macc mrej by (intro exI conjI)
  have m8: "set (symbolsFor (snd ?m) ''c1'') = {''AAPL'', ''MSFT''}"
    unfolding m4 ma by auto
  have d: "destructure ''symbols'' two_new = Some (JArr [JStr ''BW'', JStr ''BX''])"
    by (simp add: two_new_def request_def)
  have c: "map_of (connections (reached (loaded 48))) ''c1'' = Some (conn_full 48)"
    by (simp add: loaded_48 connection_full)
  have k: "trim ascii_engine (toUpperCase ascii_engine ''BW'') = ''BW''"
    "trim ascii_engine (toUpperCase ascii_engine ''BX'') = ''BX''"
    by code_simp+
  have a: "accepted_symbols ascii_engine [JStr ''BW'', JStr ''BX''] = {''BW'', ''BX''}"
    by (simp add: accepted_symbols_strings k)
  have r: "rejected_entries ascii_engine [JStr ''BW'', JStr ''BX''] = {}"
    by (simp add: rejected_entries_strings k)
  let ?res = "on_subscribe ascii_engine ''c1'' two_new (reached (loaded 48))"
  have lim: "\<not> length (conn_subscriptions (conn_full 48)) + length [JStr ''BW'', JStr ''BX'']
      > MAX_SUBSCRIPTIONS_PER_CLIENT"
    by (simp add: length_conn_full MAX_SUBSCRIPTIONS_PER_CLIENT_def)
  have "(\<exists>accepted rejected.
           fst ?res = Emit ''c1'' (Subscribed accepted rejected) #
             (if accepted \<noteq> [] then [SendInitialStockData ''c1'' accepted] else [])
           \<and> set accepted = accepted_symbols ascii_engine [JStr ''BW'', JStr ''BX'']
           \<and> set rejected = rejected_entries ascii_engine [JStr ''BW'', JStr ''BX'']
           \<and> length accepted + length rejected = length [JStr ''BW'', JStr ''BX''])
        \<and> set (symbolsFor (snd ?res) ''c1'')
            = set (conn_subscriptions (conn_full 48))
              \<union> accepted_symbols ascii_engine [JStr ''BW'', JStr ''BX'']
        \<and> length (symbolsFor (snd ?res) ''c1'') \<le> MAX_SUBSCRIPTIONS_PER_CLIENT"
    using subscribe_cap_all_or_nothing [OF d c, where js = ascii_engine] lim
    by (simp only: if_False)
  then obtain accepted rejected where
    1: "fst ?res = Emit ''c1'' (Subscribed accepted rejected) #
             (if accepted \<noteq> [] then [SendInitialStockData ''c1'' accepted] else [])"
    and 2: "set accepted = accepted_symbols ascii_engine [JStr ''BW'', JStr ''BX'']"
    and 3: "set rejected = rejected_entries ascii_engine [JStr ''BW'', JStr ''BX'']"
    and 4: "set (symbolsFor (snd ?res) ''c1'')
            = set (conn_subscriptions (conn_full 48))
              \<union> accepted_symbols ascii_engine [JStr ''BW'', JStr ''BX'']"
    and 5: "length (symbolsFor (snd ?res) ''c1'') \<le> MAX_SUBSCRIPTIONS_PER_CLIENT"
    by (elim conjE exE)
  from 2 a have acc: "set accepted = {''BW'', ''BX''}" by simp
  have ne: "accepted \<noteq> []"
  proof
    assume "accepted = []"
    with acc show False by simp
  qed
  then have e: "(if accepted \<noteq> [] then [SendInitialStockData ''c1'' accepted] else [])
      = [SendInitialStockData ''c1'' accepted]"
    by simp
  have 6: "fst ?res =
      [Emit ''c1'' (Subscribed accepted rejected), SendInitialStockData ''c1'' accepted]"
    using 1 unfolding e .
  from 3 r have 7: "rejected = []" by simp
  from 4 a have 8: "''BX'' \<in> set (symbolsFor (snd ?res) ''c1'')" by simp
  have 9: "\<exists>accepted rejected.
         fst ?res = [Emit ''c1'' (Subscribed accepted rejected), SendInitialStockData ''c1'' accepted]
         \<and> set accepted = {''BW'', ''BX''} \<and> rejected = []"
    using 6 acc 7 by (intro exI conjI)
  have fd: "destructure ''symbols'' five_new =
        Some (JArr [JStr ''BW'', JStr ''BX'', JStr ''BY'', JStr ''BZ'', JStr ''CA''])"
    by (simp add: five_new_def request_def)
  have flim: "length (conn_subscriptions (conn_full 48))
      + length [JStr ''BW'', JStr ''BX'', JStr ''BY'', JStr ''BZ'', JStr ''CA'']
      > MAX_SUBSCRIPTIONS_PER_CLIENT"
    by (simp add: length_conn_full MAX_SUBSCRIPTIONS_PER_CLIENT_def)
  have f5: "on_subscribe ascii_engine ''c1'' five_new (reached (loaded 48)) =
        ([Emit ''c1'' (Subscription_error ''Maximum 50 subscriptions allowed per client'')],
         reached (loaded 48))"
    using subscribe_cap_all_or_nothing [OF fd c, where js = ascii_engine] flim
    by (simp only: if_True)
  show ?thesis
    using md mc m7 m8 d c 9 8 5 fd f5 by (intro conjI)
qed

section \<open>Subscribing again\<close>

lemma map_entry_id: "map_of xs k = Some v \<Longrightarrow> f v = v \<Longrightarrow> AList.map_entry k f xs = xs"
  by (induction xs) (auto split: if_splits)

lemma resubscribe_symbol:
  assumes "registry_inv st" and "map_of (connections st) c = Some conn"
    and "trim js (toUpperCase js r) \<in> set (conn_subscriptions conn)"
  shows "subscribe_symbol js c (JStr r) (st, a, e) = (st, a @ [trim js (toUpperCase js r)], e)"
    and "subscriptions st \<noteq> []" and "updateInterval st"
proof -
  let ?k = "trim js (toUpperCase js r)"
  have h: "?k \<in> held (connections st) c" using assms(2,3) by (simp add: held_def)
  with assms(1) have ne: "?k \<noteq> []" by (auto simp: registry_inv_def)
  from h assms(1) have "c \<in> clients (subscriptions st) ?k" by (simp add: registry_inv_def)
  then obtain ids where ids: "map_of (subscriptions st) ?k = Some ids" "c \<in> set ids"
    by (auto simp: clients_def split: option.splits)
  then show "subscriptions st \<noteq> []" by auto
  with assms(1) show "updateInterval st" by (simp add: registry_inv_def)
  have 1: "AList.map_entry c
        (\<lambda>k. k\<lparr>conn_subscriptions := set_add ?k (conn_subscriptions k)\<rparr>) (connections st)
      = connections st"
    using assms(2,3) by (intro map_entry_id) (auto simp: set_add_def)
  have 2: "AList.map_entry ?k (set_add c) (subscriptions st) = subscriptions st"
    using ids by (intro map_entry_id) (auto simp: set_add_def)
  show "subscribe_symbol js c (JStr r) (st, a, e) = (st, a @ [?k], e)"
    using ne ids 1 2 by (simp add: Let_def)
qed

lemma held_subscribe_symbol:
  assumes "subscribe_symbol js c v (st, a, e) = (st', a', e')"
  shows "held (connections st') c' \<subseteq> held (connections st) c' \<union> {trim js (toUpperCase js s) |s. v = JStr s}"
proof (cases v)
  case (JStr r)
  with assms show ?thesis
    by (auto simp: Let_def held_add split: if_splits)
qed (use assms in auto)

lemma held_fold_subscribe:
  assumes "fold (subscribe_symbol js c) xs (st, a, e) = (st', a', e')"
  shows "held (connections st') c' \<subseteq> held (connections st) c' \<union> {trim js (toUpperCase js s) |s. JStr s \<in> set xs}"
  using assms
proof (induction xs arbitrary: st a e)
  case Nil
  then show ?case by simp
next
  case (Cons x xs)
  obtain st1 a1 e1 where s1: "subscribe_symbol js c x (st, a, e) = (st1, a1, e1)"
    by (cases "subscribe_symbol js c x (st, a, e)") auto
  with Cons.prems have "fold (subscribe_symbol js c) xs (st1, a1, e1) = (st', a', e')" by simp
  from Cons.IH [OF this] held_subscribe_symbol [OF s1, of c'] show ?case by auto
qed

lemma held_on_subscribe:
  "held (connections (snd (on_subscribe js c (request xs) st))) c'
     \<subseteq> held (connections st) c' \<union> {trim js (toUpperCase js s) |s. JStr s \<in> set xs}"
proof (cases "\<exists>conn. map_of (connections st) c = Some conn
    \<and> \<not> length (conn_subscriptions conn) + length xs > MAX_SUBSCRIPTIONS_PER_CLIENT")
  case True
  then obtain conn where h: "map_of (connections st) c = Some conn"
    "\<not> length (conn_subscriptions conn) + length xs > MAX_SUBSCRIPTIONS_PER_CLIENT" by blast
  obtain st' a' e' where f: "fold (subscribe_symbol js c) xs (st, [], []) = (st', a', e')"
    by (cases "fold (subscribe_symbol js c) xs (st, [], [])") auto
  have d: "destructure ''symbols'' (request xs) = Some (JArr xs)" by (simp add: request_def)
  from on_subscribe_under_limit [OF d h f] held_fold_subscribe [OF f, of c']
  show ?thesis by (auto simp: startUpdateInterval_def)
next
  case False
  then have "snd (on_subscribe js c (request xs) st) = st"
    by (auto simp: on_subscribe_def request_def split: option.splits)
  then show ?thesis by auto
qed

lemma set_symbolsFor: "set (symbolsFor st c) = held (connections st) c"
  by (simp add: symbolsFor_def held_def split: option.splits)

text \<open>
  C7, as stated, fails: a connection that holds 50 symbols and subscribes again to one
  of them is answered with \<open>subscription_error\<close>, not with an acceptance.
\<close>

theorem resubscribe_counterexample:
  "trim ascii_engine (toUpperCase ascii_engine ''ab'') \<in> set (symbolsFor (reached (loaded 50)) ''c1'')
   \<and> on_subscribe ascii_engine ''c1'' (request [JStr ''ab'']) (reached (loaded 50)) =
        ([Emit ''c1'' (Subscription_error ''Maximum 50 subscriptions allowed per client'')],
         reached (loaded 50))"
proof -
  have m: "trim ascii_engine (toUpperCase ascii_engine ''ab'') \<in> set (conn_subscriptions (conn_full 50))"
    by code_simp
  have d: "destructure ''symbols'' (request [JStr ''ab'']) = Some (JArr [JStr ''ab''])"
    by (simp add: request_def)
  have "on_subscribe ascii_engine ''c1'' (request [JStr ''ab'']) (full 50) =
      ([Emit ''c1'' (Subscription_error ''Maximum 50 subscriptions allowed per client'')], full 50)"
    by (rule on_subscribe_over_limit [OF d connection_full])
      (simp add: length_conn_full MAX_SUBSCRIPTIONS_PER_CLIENT_def)
  with m show ?thesis
    by (simp add: loaded_50 symbolsFor_def connection_full)
qed

lemma fresh_ids_loaded: "fresh_ids js db (loaded n) init"
  by (simp add: loaded_def init_def)

text \<open>
  C7, amended. In a registry reached from the empty one, a connection that subscribes
  to a single string whose cleaned form (upper-cased, then trimmed) it already holds
  leaves the registry unchanged: neither its set nor the symbol's set gains an entry.
  When it holds fewer than 50 symbols the reply is \<open>subscribed\<close>, listing that form and
  no error; when it holds 50 the reply is \<open>subscription_error\<close>. For any request, a
  symbol that enters the connection's set is the cleaned form of a requested string.
\<close>

theorem resubscribe_idempotent:
  assumes "fresh_ids js db es init"
    and "map_of (connections (run js db es init)) c = Some conn"
    and "trim js (toUpperCase js r) \<in> set (conn_subscriptions conn)"
  shows "on_subscribe js c (request [JStr r]) (run js db es init) =
           (if length (conn_subscriptions conn) < MAX_SUBSCRIPTIONS_PER_CLIENT
            then [Emit c (Subscribed [trim js (toUpperCase js r)] []),
                  SendInitialStockData c [trim js (toUpperCase js r)]]
            else [Emit c (Subscription_error ''Maximum 50 subscriptions allowed per client'')],
            run js db es init)
     \<and> (\<forall>xs. set (symbolsFor (snd (on_subscribe js c (request xs) (run js db es init))) c)
            \<subseteq> set (conn_subscriptions conn) \<union> {trim js (toUpperCase js s) |s. JStr s \<in> set xs})"
proof -
  let ?st = "run js db es init"
  have inv: "registry_inv ?st" by (rule run_inv [OF assms(1) init_inv])
  note rs = resubscribe_symbol [OF inv assms(2,3)]
  have d: "destructure ''symbols'' (request [JStr r]) = Some (JArr [JStr r])"
    by (simp add: request_def)
  have f: "fold (subscribe_symbol js c) [JStr r] (?st, [], []) = (?st, [trim js (toUpperCase js r)], [])"
    using rs(1) [where a = "[]" and e = "[]"] by simp
  have 1: "on_subscribe js c (request [JStr r]) ?st =
           (if length (conn_subscriptions conn) < MAX_SUBSCRIPTIONS_PER_CLIENT
            then [Emit c (Subscribed [trim js (toUpperCase js r)] []),
                  SendInitialStockData c [trim js (toUpperCase js r)]]
            else [Emit c (Subscription_error ''Maximum 50 subscriptions allowed per client'')],
            ?st)"
  proof (cases "length (conn_subscriptions conn) < MAX_SUBSCRIPTIONS_PER_CLIENT")
    case True
    then have l: "\<not> length (conn_subscriptions conn) + length [JStr r]
        > MAX_SUBSCRIPTIONS_PER_CLIENT" by simp
    from on_subscribe_under_limit [OF d assms(2) l f] rs(2,3) True show ?thesis by simp
  next
    case False
    then have l: "length (conn_subscriptions conn) + length [JStr r]
        > MAX_SUBSCRIPTIONS_PER_CLIENT" by simp
    from on_subscribe_over_limit [OF d assms(2) l] False show ?thesis by simp
  qed
  have 2: "set (symbolsFor (snd (on_subscribe js c (request xs) ?st)) c)
            \<subseteq> set (conn_subscriptions conn) \<union> {trim js (toUpperCase js s) |s. JStr s \<in> set xs}" for xs
  proof -
    have "held (connections ?st) c = set (conn_subscriptions conn)"
      using assms(2) by (simp add: held_def)
    with held_on_subscribe [where js = js and c = c and xs = xs and st = ?st and c' = c]
    show ?thesis
      by (simp add: set_symbolsFor)
  qed
  from 1 2 show ?thesis by blast
qed

theorem resubscribe_idempotent_witness:
  "well_formed demo_trace
   \<and> map_of (connections (reached demo_trace)) ''c1''
       = Some \<lparr>conn_subscriptions = [''AAPL''], userId = JNull, connected = True\<rparr>
   \<and> trim ascii_engine (toUpperCase ascii_engine ''aapl '') = ''AAPL''
   \<and> on_subscribe ascii_engine ''c1'' (request [JStr ''aapl '']) (reached demo_trace) =
        ([Emit ''c1'' (Subscribed [''AAPL''] []), SendInitialStockData ''c1'' [''AAPL'']],
         reached demo_trace)
   \<and> well_formed (loaded 50)
   \<and> map_of (connections (reached (loaded 50))) ''c1'' = Some (conn_full 50)
   \<and> trim ascii_engine (toUpperCase ascii_engine '' bv'') \<in> set (conn_subscriptions (conn_full 50))
   \<and> on_subscribe ascii_engine ''c1'' (request [JStr '' bv'']) (reached (loaded 50)) =
        ([Emit ''c1'' (Subscription_error ''Maximum 50 subscriptions allowed per client'')],
         reached (loaded 50))"
proof -
  have f: "well_formed demo_trace"
    by code_simp
  have c: "map_of (connections (reached demo_trace)) ''c1''
       = Some \<lparr>conn_subscriptions = [''AAPL''], userId = JNull, connected = True\<rparr>"
    by code_simp
  have t: "trim ascii_engine (toUpperCase ascii_engine ''aapl '') = ''AAPL''"
    by code_simp
  have m: "trim ascii_engine (toUpperCase ascii_engine ''aapl '') \<in> set (conn_subscriptions
      \<lparr>conn_subscriptions = [''AAPL''], userId = JNull, connected = True\<rparr>)"
    by (simp add: t)
  have f': "well_formed (loaded 50)"
    by (rule fresh_ids_loaded)
  have c': "map_of (connections (reached (loaded 50))) ''c1'' = Some (conn_full 50)"
    by (simp add: loaded_50 connection_full)
  have m': "trim ascii_engine (toUpperCase ascii_engine '' bv'')
      \<in> set (conn_subscriptions (conn_full 50))"
    by code_simp
  from resubscribe_idempotent [OF f c m] resubscribe_idempotent [OF f' c' m'] f c t f' c' m'
  show ?thesis
    by (simp add: MAX_SUBSCRIPTIONS_PER_CLIENT_def length_conn_full)
qed

section \<open>The timer\<close>

lemma timer_runs_while_subscribed:
  "fresh_ids js db es init \<Longrightarrow> subscriptions (run js db es init) \<noteq> [] \<Longrightarrow>
     updateInterval (run js db es init)"
  using run_inv [OF _ init_inv] by (simp add: registry_inv_def)

text \<open>
  When every unsubscribe payload holds strings only, the timer is active exactly when
  the index has a key.
\<close>

lemma map_entry_Nil_iff: "AList.map_entry k f xs = [] \<longleftrightarrow> xs = []"
  by (cases xs) auto

lemma subscribe_symbol_keeps_keys:
  assumes "subscribe_symbol js c v (st, a, e) = (st', a', e')" and "subscriptions st \<noteq> []"
  shows "subscriptions st' \<noteq> []"
proof (cases v)
  case (JStr r)
  with assms show ?thesis
    by (auto simp: Let_def map_entry_Nil_iff split: if_splits option.splits)
qed (use assms in auto)

lemma fold_subscribe_keeps_keys:
  assumes "fold (subscribe_symbol js c) xs (st, a, e) = (st', a', e')" and "subscriptions st \<noteq> []"
  shows "subscriptions st' \<noteq> []"
  using assms
proof (induction xs arbitrary: st a e)
  case Nil
  then show ?case by simp
next
  case (Cons x xs)
  obtain st1 a1 e1 where s1: "subscribe_symbol js c x (st, a, e) = (st1, a1, e1)"
    by (cases "subscribe_symbol js c x (st, a, e)") auto
  with Cons.prems have "fold (subscribe_symbol js c) xs (st1, a1, e1) = (st', a', e')" by simp
  from Cons.IH [OF this subscribe_symbol_keeps_keys [OF s1 Cons.prems(2)]] show ?case .
qed

lemma on_subscribe_timer:
  assumes "registry_inv st" and "timer_exact st"
  shows "timer_exact (snd (on_subscribe js c d st))"
proof -
  have "registry_inv (snd (on_subscribe js c d st))" by (rule on_subscribe_inv [OF assms(1)])
  then have 1: "subscriptions (snd (on_subscribe js c d st)) \<noteq> [] \<longrightarrow>
      updateInterval (snd (on_subscribe js c d st))"
    by (simp add: registry_inv_def)
  have 2: "updateInterval (snd (on_subscribe js c d st)) \<longrightarrow>
      subscriptions (snd (on_subscribe js c d st)) \<noteq> []"
  proof (cases "\<exists>symbols conn. destructure ''symbols'' d = Some symbols \<and> truthy symbols
      \<and> isArray symbols \<and> map_of (connections st) c = Some conn
      \<and> \<not> length (conn_subscriptions conn) + length (elements symbols) > MAX_SUBSCRIPTIONS_PER_CLIENT")
    case True
    then obtain symbols conn where h: "destructure ''symbols'' d = Some symbols" "truthy symbols"
      "isArray symbols" "map_of (connections st) c = Some conn"
      "\<not> length (conn_subscriptions conn) + length (elements symbols) > MAX_SUBSCRIPTIONS_PER_CLIENT"
      by blast
    obtain st' a' e' where f: "fold (subscribe_symbol js c) (elements symbols) (st, [], []) = (st', a', e')"
      by (cases "fold (subscribe_symbol js c) (elements symbols) (st, [], [])") auto
    have "core st" using assms(1) by (simp add: registry_inv_core)
    with fold_subscribe_core [OF _ _ f] h(4) have t: "updateInterval st' = updateInterval st" by auto
    have r: "snd (on_subscribe js c d st) =
        (if subscriptions st' \<noteq> [] \<and> \<not> updateInterval st' then startUpdateInterval st' else st')"
      using h f by (simp add: on_subscribe_def)
    show ?thesis
    proof (cases "subscriptions st' = []")
      case True
      with fold_subscribe_keeps_keys [OF f] have "subscriptions st = []" by auto
      with assms(2) t True r show ?thesis by (simp add: timer_exact_def)
    next
      case False
      with r show ?thesis by (auto simp: startUpdateInterval_def)
    qed
  next
    case False
    then have "snd (on_subscribe js c d st) = st"
      by (auto simp: on_subscribe_def split: option.splits)
    with assms(2) show ?thesis by (simp add: timer_exact_def)
  qed
  from 1 2 show ?thesis by (auto simp: timer_exact_def)
qed

lemma unsubscribe_symbols_returns:
  "all_strings xs \<Longrightarrow> \<exists>st' r. unsubscribe_symbols js c xs st acc = Inr (st', r)"
  by (induction js c xs st acc rule: unsubscribe_symbols.induct) (auto simp: Let_def)

lemma on_unsubscribe_timer:
  assumes "registry_inv st" and "timer_exact st"
    and "case destructure ''symbols'' d of Some (JArr xs) \<Rightarrow> all_strings xs | _ \<Rightarrow> True"
  shows "timer_exact (snd (on_unsubscribe js c d st))"
proof -
  have "registry_inv (snd (on_unsubscribe js c d st))" by (rule on_unsubscribe_inv [OF assms(1)])
  then have 1: "subscriptions (snd (on_unsubscribe js c d st)) \<noteq> [] \<longrightarrow>
      updateInterval (snd (on_unsubscribe js c d st))"
    by (simp add: registry_inv_def)
  have 2: "updateInterval (snd (on_unsubscribe js c d st)) \<longrightarrow>
      subscriptions (snd (on_unsubscribe js c d st)) \<noteq> []"
  proof (cases "\<exists>xs conn. destructure ''symbols'' d = Some (JArr xs)
      \<and> map_of (connections st) c = Some conn")
    case True
    then obtain xs conn where h: "destructure ''symbols'' d = Some (JArr xs)"
      "map_of (connections st) c = Some conn" by blast
    with assms(3) have "all_strings xs" by simp
    from unsubscribe_symbols_returns [OF this, where js = js and c = c and st = st and acc = "[]"]
    obtain st' r where u: "unsubscribe_symbols js c xs st [] = Inr (st', r)" by blast
    with h show ?thesis
      by (auto simp: on_unsubscribe_def stopUpdateInterval_def)
  next
    case False
    then have "snd (on_unsubscribe js c d st) = st"
      by (cases "the (destructure ''symbols'' d)")
        (auto simp: on_unsubscribe_def split: option.splits)
    with assms(2) show ?thesis by (simp add: timer_exact_def)
  qed
  from 1 2 show ?thesis by (auto simp: timer_exact_def)
qed

lemma on_disconnect_timer: "timer_exact st \<Longrightarrow> registry_inv st \<Longrightarrow> timer_exact (on_disconnect c st)"
  using on_disconnect_inv [of st c]
  by (auto simp: timer_exact_def registry_inv_def on_disconnect_def Let_def stopUpdateInterval_def
      split: option.splits)

lemma run_timer:
  "fresh_ids js db es st \<Longrightarrow> string_payloads es \<Longrightarrow> registry_inv st \<Longrightarrow> timer_exact st
     \<Longrightarrow> timer_exact (run js db es st)"
proof (induction es arbitrary: st)
  case Nil
  then show ?case by simp
next
  case (Cons e es)
  have i: "registry_inv (snd (step js db e st))"
    using Cons.prems by (intro step_inv) auto
  have t: "timer_exact (snd (step js db e st))"
  proof (cases e)
    case (Subscribe c d)
    with Cons.prems show ?thesis by (simp add: on_subscribe_timer)
  next
    case (Unsubscribe c d)
    with Cons.prems show ?thesis by (simp add: on_unsubscribe_timer)
  next
    case (Disconnect c)
    with Cons.prems show ?thesis by (simp add: on_disconnect_timer)
  qed (use Cons.prems in \<open>auto simp: timer_exact_def on_connection_def on_authenticate_def
        on_subscribe_watchlist_def on_ping_def split: option.splits sum.splits\<close>)
  have "string_payloads es" using Cons.prems(2) by (cases e) auto
  with Cons i t show ?case by simp
qed

lemma timer_exact_for_string_payloads:
  "fresh_ids js db es init \<Longrightarrow> string_payloads es \<Longrightarrow>
     updateInterval (run js db es init) \<longleftrightarrow> subscriptions (run js db es init) \<noteq> []"
  using run_timer [OF _ _ init_inv, where js = js and db = db and es = es] by (simp add: timer_exact_def init_def)

text \<open>
  C3 fails on the code: the only subscriber unsubscribes with an array whose second
  entry is a number. The first entry is removed, which empties \<open>subscriptions\<close>; the
  number then throws out of the loop, the handler answers \<open>unsubscription_error\<close> and
  never reaches the test that stops the timer, so the timer stays active over an
  empty index.
\<close>

theorem timer_survives_failed_unsubscribe:
  "subscriptions (reached stuck_trace) = []
   \<and> updateInterval (reached stuck_trace)
   \<and> fst (step ascii_engine Watchlist_findDefaultWatchlist
              (Unsubscribe ''c1'' (request [JStr ''AAPL'', JNum 42]))
              (reached (butlast stuck_trace)))
       = [Emit ''c1'' (Unsubscription_error ''Unsubscription failed'')]"
  by code_simp

section \<open>Overlapping cycles\<close>

lemma server_run_handlers:
  "server_run js db (map Handler es @ rest) sv
     = server_run js db rest (sv\<lparr>reg := run js db es (reg sv)\<rparr>)"
  by (induction es arbitrary: sv) simp_all

lemma server_run_ticks:
  "server_run js db (replicate k Tick) sv =
     (if updateInterval (reg sv) \<and> subscriptions (reg sv) \<noteq> []
      then sv\<lparr>in_flight := in_flight sv + k\<rparr> else sv)"
  by (induction k arbitrary: sv) simp_all

text \<open>
  C8, as stated, fails: with 25 subscribed symbols, a cycle of three upstream calls,
  two firings of the timer with no cycle finished in between leave two
  fetch-and-broadcast cycles in flight at once.
\<close>

theorem overlapping_cycles_counterexample:
  "in_flight (server_run ascii_engine Watchlist_findDefaultWatchlist
      (map Handler (loaded 25) @ [Tick, Tick]) server_init) = 2"
  by code_simp

text \<open>
  C8, amended. Nothing keeps the cycles apart. A firing of the timer while the index
  is non-empty starts a new cycle whether or not earlier cycles have finished: after
  any history of socket events, \<open>k\<close> firings during which no cycle finishes leave \<open>k\<close>
  cycles in flight when the index is non-empty, and none when it is empty. No firing
  is skipped or queued.
\<close>

theorem ticks_start_cycles_regardless:
  assumes "fresh_ids js db es init"
  shows "server_run js db (map Handler es @ replicate k Tick) server_init =
     \<lparr>reg = run js db es init,
      in_flight = (if subscriptions (run js db es init) \<noteq> [] then k else 0)\<rparr>"
proof -
  have t: "subscriptions (run js db es init) \<noteq> [] \<longrightarrow> updateInterval (run js db es init)"
    using timer_runs_while_subscribed [OF assms] by blast
  show ?thesis
    unfolding server_run_handlers server_run_ticks using t
    by (simp add: server_init_def)
qed

theorem ticks_start_cycles_regardless_witness:
  "well_formed demo_trace
   \<and> subscriptions (reached demo_trace) \<noteq> []
   \<and> in_flight (server_run ascii_engine Watchlist_findDefaultWatchlist
        (map Handler demo_trace @ replicate 3 Tick) server_init) = 3"
proof -
  have f: "well_formed demo_trace"
    by code_simp
  have n: "subscriptions (reached demo_trace) \<noteq> []"
    by code_simp
  from ticks_start_cycles_regardless [OF f, of 3] f n show ?thesis
    by simp
qed

section \<open>subscribe_watchlist\<close>

lemma on_subscribe_watchlist_registry:
  "snd (on_subscribe_watchlist findDefaultWatchlist c d st) = st"
  by (simp add: on_subscribe_watchlist_def split: option.splits sum.splits)

lemma on_subscribe_watchlist_replies:
  assumes "destructure ''userId'' d = Some uid" and "truthy uid"
  shows "fst (on_subscribe_watchlist findDefaultWatchlist c d st) =
     (case findDefaultWatchlist uid of
        Inl e \<Rightarrow> [Emit c (Subscription_error ''Failed to subscribe to watchlist'')]
      | Inr None \<Rightarrow> [Emit c (Watchlist_subscribed [] ''No watchlist found or empty'')]
      | Inr (Some []) \<Rightarrow> [Emit c (Watchlist_subscribed [] ''No watchlist found or empty'')]
      | Inr (Some (x # xs)) \<Rightarrow> [Emit c (Subscribe_event (x # xs))])"
  using assms
  by (simp add: on_subscribe_watchlist_def split: option.splits sum.splits list.splits)


lemma subscribe_watchlist_example:
  "on_subscribe_watchlist Watchlist_findDefaultWatchlist ''c1'' (JObj [(''userId'', JStr ''u1'')])
      (reached [Connection ''c1''])
    = ([Emit ''c1'' (Subscription_error ''Failed to subscribe to watchlist'')],
       reached [Connection ''c1''])"
  by code_simp

section \<open>The fan-out\<close>

lemma emit_to_clients_eq:
  "emit_to_clients st msg ids out = out @ map (\<lambda>c. (c, msg)) (filter (live st) ids)"
  unfolding emit_to_clients_def
  by (induction ids arbitrary: out) (auto simp: live_def split: option.splits)

lemma set_fold_broadcast_stock:
  "set (fold (broadcast_stock st) ups out) =
     set out \<union> {(c, Stock_update s stock) |c s stock.
        stock \<in> set ups \<and> stock_symbol stock = Some s
        \<and> c \<in> clients (subscriptions st) s \<and> live st c}"
proof (induction ups arbitrary: out)
  case Nil
  then show ?case by simp
next
  case (Cons u ups)
  have "set (broadcast_stock st u out) =
      set out \<union> {(c, Stock_update s u) |c s.
        stock_symbol u = Some s \<and> c \<in> clients (subscriptions st) s \<and> live st c}"
    by (auto simp: broadcast_stock_def emit_to_clients_eq clients_def split: option.splits)
  with Cons.IH [of "broadcast_stock st u out"] show ?case by auto
qed

lemma set_fold_broadcast_error:
  "set (fold (broadcast_error st) errs out) =
     set out \<union> {(c, Stock_error s e) |c s e.
        (s, e) \<in> set errs \<and> c \<in> clients (subscriptions st) s \<and> live st c}"
proof (induction errs arbitrary: out)
  case Nil
  then show ?case by simp
next
  case (Cons u errs)
  have "set (broadcast_error st u out) =
      set out \<union> {(c, Stock_error (fst u) (snd u)) |c.
        c \<in> clients (subscriptions st) (fst u) \<and> live st c}"
    by (auto simp: broadcast_error_def emit_to_clients_eq clients_def split: option.splits)
  with Cons.IH [of "broadcast_error st u out"] show ?case by force
qed

lemma set_deliver:
  "set (deliver st ups errs) =
     {(c, Stock_update s stock) |c s stock.
        stock \<in> set ups \<and> stock_symbol stock = Some s
        \<and> c \<in> clients (subscriptions st) s \<and> live st c}
     \<union> {(c, Stock_error s e) |c s e.
        (s, e) \<in> set errs \<and> c \<in> clients (subscriptions st) s \<and> live st c}"
proof -
  have "deliver st ups errs = fold (broadcast_error st) errs (fold (broadcast_stock st) ups [])"
    by (cases errs) (simp_all add: deliver_def Let_def)
  then have "set (deliver st ups errs) =
      set (fold (broadcast_error st) errs (fold (broadcast_stock st) ups []))"
    by (rule arg_cong)
  also have "\<dots> = set (fold (broadcast_stock st) ups []) \<union> {(c, Stock_error s e) |c s e.
        (s, e) \<in> set errs \<and> c \<in> clients (subscriptions st) s \<and> live st c}"
    by (rule set_fold_broadcast_error)
  finally show ?thesis
    unfolding set_fold_broadcast_stock by simp
qed

text \<open>
  C4. In the fan-out of one cycle a client receives the \<open>stock_update\<close> of a fetched
  quote exactly when the quote is among the results, the client's identifier is in the
  set stored under the quote's symbol, and the client is still registered with a
  connected socket; it receives the \<open>stock_error\<close> of a symbol under the same
  condition on the failures. Every other client is passed over without an error, the
  two kinds of message do not depend on each other, and no other message is pushed.
\<close>

theorem fanout_exact:
  "((c, Stock_update s stock) \<in> set (deliver st ups errs) \<longleftrightarrow>
      stock \<in> set ups \<and> stock_symbol stock = Some s
      \<and> c \<in> clients (subscriptions st) s \<and> live st c)
   \<and> ((c, Stock_error s e) \<in> set (deliver st ups errs) \<longleftrightarrow>
      (s, e) \<in> set errs \<and> c \<in> clients (subscriptions st) s \<and> live st c)
   \<and> (c, Forced_stock_update s stock) \<notin> set (deliver st ups errs)"
  unfolding set_deliver by auto

theorem fanout_exact_witness:
  "(''c1'', Stock_update ''GOOD'' (Stock (Some ''GOOD'') ()))
      \<in> set (deliver (reached (fan_trace @ [Disconnect ''c2'']))
           [Stock (Some ''GOOD'') ()] [(''BAD'', Message ''Stock not found'')])
   \<and> (''c1'', Stock_error ''BAD'' (Message ''Stock not found''))
      \<in> set (deliver (reached (fan_trace @ [Disconnect ''c2'']))
           [Stock (Some ''GOOD'') ()] [(''BAD'', Message ''Stock not found'')])
   \<and> (''c2'', Stock_update ''GOOD'' (Stock (Some ''GOOD'') ()))
      \<notin> set (deliver (reached (fan_trace @ [Disconnect ''c2'']))
           [Stock (Some ''GOOD'') ()] [(''BAD'', Message ''Stock not found'')])"
proof -
  let ?st = "reached (fan_trace @ [Disconnect ''c2''])"
  have c: "''c1'' \<in> clients (subscriptions ?st) ''GOOD''"
    "''c1'' \<in> clients (subscriptions ?st) ''BAD''" "live ?st ''c1''" "\<not> live ?st ''c2''"
    by code_simp+
  let ?good = "Stock (Some ''GOOD'') ()"
  let ?ups = "[?good]" and ?errs = "[(''BAD'', Message ''Stock not found'')]"
  show ?thesis
    using c
      fanout_exact [where st = ?st and ups = ?ups and errs = ?errs and c = "''c1''"
        and s = "''GOOD''" and stock = ?good and e = "Message ''Stock not found''"]
      fanout_exact [where st = ?st and ups = ?ups and errs = ?errs and c = "''c1''"
        and s = "''BAD''" and stock = ?good and e = "Message ''Stock not found''"]
      fanout_exact [where st = ?st and ups = ?ups and errs = ?errs and c = "''c2''"
        and s = "''GOOD''" and stock = ?good and e = "Message ''Stock not found''"]
    by simp
qed

lemma broadcast_demo:
  "broadcastStockUpdates ascii_engine demo_api (reached fan_trace)
      (reached (fan_trace @ [Disconnect ''c2''])) =
     [(''c1'', Stock_update ''GOOD'' (Stock (Some ''GOOD'') ())),
      (''c1'', Stock_error ''BAD'' (Message ''Stock not found'')),
      (''c3'', Stock_error ''BAD'' (Message ''Stock not found''))]"
  by code_simp

section \<open>The batches of a cycle\<close>

lemma ceil_step: "0 < (n::nat) \<Longrightarrow> Suc ((n - 10 + 10 - 1) div 10) = (n + 10 - 1) div 10"
proof (cases "n \<le> 10")
  case True
  assume "0 < n"
  with True have "n - 10 = 0" and "(n + 9) div 10 = 1" by auto
  then show ?thesis by simp
next
  case False
  then have "n - 10 + 10 - 1 = n - 1" and "n + 10 - 1 = (n - 1) + 10" by auto
  then show ?thesis by simp
qed

lemma fetch_batches_inv:
  assumes "fetch_batches fetch symbols i (U, E, C) = (U', E', C')"
    and "concat C = take i symbols"
    and "\<forall>b\<in>set C. b \<noteq> [] \<and> length b \<le> batchSize"
    and "U = concat (map (batch_stocks fetch) C)"
    and "E = concat (map (batch_errors fetch) C)"
  shows "concat C' = symbols \<and> (\<forall>b\<in>set C'. b \<noteq> [] \<and> length b \<le> batchSize)
     \<and> U' = concat (map (batch_stocks fetch) C') \<and> E' = concat (map (batch_errors fetch) C')
     \<and> length C' = length C + (length symbols - i + batchSize - 1) div batchSize"
  using assms
proof (induction "length symbols - i" arbitrary: i U E C rule: less_induct)
  case less
  show ?case
  proof (cases "i < length symbols")
    case False
    with less.prems show ?thesis
      by (subst (asm) fetch_batches.simps) (auto simp: batchSize_def)
  next
    case True
    define batch where "batch = take batchSize (drop i symbols)"
    define U1 where "U1 = U @ batch_stocks fetch batch"
    define E1 where "E1 = E @ batch_errors fetch batch"
    have nxt: "fetch_batches fetch symbols (i + batchSize) (U1, E1, C @ [batch]) = (U', E', C')"
      using less.prems(1) True
      by (subst (asm) fetch_batches.simps)
        (auto simp: batch_def U1_def E1_def batch_stocks_def batch_errors_def Let_def
          split: sum.splits prod.splits)
    have b: "batch \<noteq> []" "length batch \<le> batchSize"
      using True by (auto simp: batch_def batchSize_def)
    have c: "concat (C @ [batch]) = take (i + batchSize) symbols"
      using less.prems(2) by (simp add: batch_def take_add)
    have m: "length symbols - (i + batchSize) < length symbols - i"
      using True by (simp add: batchSize_def)
    have r: "concat C' = symbols \<and> (\<forall>b\<in>set C'. b \<noteq> [] \<and> length b \<le> batchSize)
      \<and> U' = concat (map (batch_stocks fetch) C') \<and> E' = concat (map (batch_errors fetch) C')
      \<and> length C' = length (C @ [batch])
          + (length symbols - (i + batchSize) + batchSize - 1) div batchSize"
      using less.prems(3,4,5) b
      by (intro less.hyps [OF m nxt c]) (auto simp: U1_def E1_def)
    have "Suc ((length symbols - (i + batchSize) + batchSize - 1) div batchSize)
        = (length symbols - i + batchSize - 1) div batchSize"
    proof -
      have "length symbols - (i + batchSize) = (length symbols - i) - 10"
        by (simp add: batchSize_def)
      with ceil_step [of "length symbols - i"] True show ?thesis
        by (simp add: batchSize_def)
    qed
    with r show ?thesis by simp
  qed
qed

lemma refresh_fetch_props:
  "case refresh_fetch js api st of (allUpdates, allErrors, calls) \<Rightarrow>
      concat calls = map fst (subscriptions st)
      \<and> (\<forall>batch\<in>set calls. batch \<noteq> [] \<and> length batch \<le> batchSize)
      \<and> length calls = (length (subscriptions st) + batchSize - 1) div batchSize
      \<and> allUpdates = concat (map (batch_stocks
            (\<lambda>batch. getMultipleStockPrices js api (JArr (map JStr batch)))) calls)
      \<and> allErrors = concat (map (batch_errors
            (\<lambda>batch. getMultipleStockPrices js api (JArr (map JStr batch)))) calls)"
proof -
  obtain U E C where f: "refresh_fetch js api st = (U, E, C)"
    by (cases "refresh_fetch js api st") auto
  from fetch_batches_inv [OF f [unfolded refresh_fetch_def]] f show ?thesis
    by simp
qed

text \<open>
  C5. One cycle cuts the list of subscribed symbols into consecutive batches, none
  empty and none longer than \<open>batchSize\<close>, and calls \<open>getMultipleStockPrices\<close> once per
  batch. When the call for a batch throws, every symbol of the batch is in the failure
  list of the cycle with the error of that call, and the cycle pushes that
  \<open>stock_error\<close> to every live subscriber of the symbol. When the call returns, its
  quotes and errors are in the lists of the cycle, and the cycle pushes each quote and
  each error to every live subscriber of its symbol. This holds for each batch
  whatever happened to the others.
\<close>

theorem refresh_cycle_batches:
  "case refresh_fetch js api st of (allUpdates, allErrors, calls) \<Rightarrow>
      concat calls = map fst (subscriptions st)
      \<and> (\<forall>batch\<in>set calls. batch \<noteq> [] \<and> length batch \<le> batchSize)
      \<and> length calls = (length (subscriptions st) + batchSize - 1) div batchSize
      \<and> (\<forall>batch\<in>set calls. \<forall>e.
            getMultipleStockPrices js api (JArr (map JStr batch)) = Inl e \<longrightarrow>
            (\<forall>symbol\<in>set batch.
               (symbol, e) \<in> set allErrors
               \<and> (\<forall>c. c \<in> clients (subscriptions st') symbol \<and> live st' c \<longrightarrow>
                     (c, Stock_error symbol e) \<in> set (broadcastStockUpdates js api st st'))))
      \<and> (\<forall>batch\<in>set calls. \<forall>stocks errors.
            getMultipleStockPrices js api (JArr (map JStr batch)) = Inr (stocks, errors) \<longrightarrow>
            set stocks \<subseteq> set allUpdates \<and> set errors \<subseteq> set allErrors
            \<and> (\<forall>stock\<in>set stocks. \<forall>s c.
                  stock_symbol stock = Some s \<and> c \<in> clients (subscriptions st') s \<and> live st' c
                  \<longrightarrow> (c, Stock_update s stock) \<in> set (broadcastStockUpdates js api st st'))
            \<and> (\<forall>error\<in>set errors. \<forall>c.
                  c \<in> clients (subscriptions st') (fst error) \<and> live st' c
                  \<longrightarrow> (c, Stock_error (fst error) (snd error))
                        \<in> set (broadcastStockUpdates js api st st')))
      \<and> broadcastStockUpdates js api st st' = deliver st' allUpdates allErrors"
proof -
  obtain U E C where f: "refresh_fetch js api st = (U, E, C)"
    by (cases "refresh_fetch js api st") auto
  let ?fetch = "\<lambda>batch. getMultipleStockPrices js api (JArr (map JStr batch))"
  let ?out = "set (broadcastStockUpdates js api st st')"
  from refresh_fetch_props [where js = js and api = api and st = st] f
  have p: "concat C = map fst (subscriptions st)"
    "\<forall>batch\<in>set C. batch \<noteq> [] \<and> length batch \<le> batchSize"
    "length C = (length (subscriptions st) + batchSize - 1) div batchSize"
    "U = concat (map (batch_stocks ?fetch) C)"
    "E = concat (map (batch_errors ?fetch) C)"
    by simp_all
  have b: "broadcastStockUpdates js api st st' = deliver st' U E"
  proof (cases "subscriptions st = []")
    case True
    with p(1) have "C = []" using p(2) by (cases C) auto
    with p(4,5) True show ?thesis
      by (simp add: broadcastStockUpdates_def deliver_def)
  next
    case False
    with f show ?thesis by (simp add: broadcastStockUpdates_def)
  qed
  have pe: "(c, Stock_error s e) \<in> ?out"
    if "(s, e) \<in> set E" "c \<in> clients (subscriptions st') s" "live st' c" for c s e
    using that unfolding b set_deliver by blast
  have pu: "(c, Stock_update s stock) \<in> ?out"
    if "stock \<in> set U" "stock_symbol stock = Some s" "c \<in> clients (subscriptions st') s"
      "live st' c" for c s stock
    using that unfolding b set_deliver by blast
  have e: "(symbol, e) \<in> set E"
    if "batch \<in> set C" "?fetch batch = Inl e" "symbol \<in> set batch" for batch e symbol
  proof -
    from that(2,3) have "(symbol, e) \<in> set (batch_errors ?fetch batch)"
      by (simp add: batch_errors_def)
    with that(1) show ?thesis unfolding p(5) by auto
  qed
  have u: "set stocks \<subseteq> set U \<and> set errors \<subseteq> set E"
    if "batch \<in> set C" "?fetch batch = Inr (stocks, errors)" for batch stocks errors
  proof -
    from that(2) have "batch_stocks ?fetch batch = stocks" "batch_errors ?fetch batch = errors"
      by (simp_all add: batch_stocks_def batch_errors_def)
    with that(1) show ?thesis unfolding p(4,5) by auto
  qed
  have 4: "\<forall>batch\<in>set C. \<forall>e. ?fetch batch = Inl e \<longrightarrow>
            (\<forall>symbol\<in>set batch.
               (symbol, e) \<in> set E
               \<and> (\<forall>c. c \<in> clients (subscriptions st') symbol \<and> live st' c \<longrightarrow>
                     (c, Stock_error symbol e) \<in> ?out))"
    using e pe by blast
  have 5: "\<forall>batch\<in>set C. \<forall>stocks errors. ?fetch batch = Inr (stocks, errors) \<longrightarrow>
            set stocks \<subseteq> set U \<and> set errors \<subseteq> set E
            \<and> (\<forall>stock\<in>set stocks. \<forall>s c.
                  stock_symbol stock = Some s \<and> c \<in> clients (subscriptions st') s \<and> live st' c
                  \<longrightarrow> (c, Stock_update s stock) \<in> ?out)
            \<and> (\<forall>error\<in>set errors. \<forall>c.
                  c \<in> clients (subscriptions st') (fst error) \<and> live st' c
                  \<longrightarrow> (c, Stock_error (fst error) (snd error)) \<in> ?out)"
  proof (intro ballI allI impI)
    fix batch stocks errors
    assume h: "batch \<in> set C" "?fetch batch = Inr (stocks, errors)"
    from u [OF h] have su: "set stocks \<subseteq> set U" and se: "set errors \<subseteq> set E" by auto
    have "\<forall>stock\<in>set stocks. \<forall>s c.
        stock_symbol stock = Some s \<and> c \<in> clients (subscriptions st') s \<and> live st' c
        \<longrightarrow> (c, Stock_update s stock) \<in> ?out"
      using su pu by blast
    moreover have "\<forall>error\<in>set errors. \<forall>c.
        c \<in> clients (subscriptions st') (fst error) \<and> live st' c
        \<longrightarrow> (c, Stock_error (fst error) (snd error)) \<in> ?out"
    proof (intro ballI allI impI)
      fix error c
      assume "error \<in> set errors" "c \<in> clients (subscriptions st') (fst error) \<and> live st' c"
      with se have "(fst error, snd error) \<in> set E" by auto
      with \<open>c \<in> clients (subscriptions st') (fst error) \<and> live st' c\<close>
      show "(c, Stock_error (fst error) (snd error)) \<in> ?out"
        using pe by blast
    qed
    ultimately show "set stocks \<subseteq> set U \<and> set errors \<subseteq> set E
            \<and> (\<forall>stock\<in>set stocks. \<forall>s c.
                  stock_symbol stock = Some s \<and> c \<in> clients (subscriptions st') s \<and> live st' c
                  \<longrightarrow> (c, Stock_update s stock) \<in> ?out)
            \<and> (\<forall>error\<in>set errors. \<forall>c.
                  c \<in> clients (subscriptions st') (fst error) \<and> live st' c
                  \<longrightarrow> (c, Stock_error (fst error) (snd error)) \<in> ?out)"
      using su se by blast
  qed
  from p(1,2,3) 4 5 b show ?thesis unfolding f by simp
qed

lemma refresh_fetch_demo:
  "refresh_fetch ascii_engine demo_api (reached (loaded 12)) =
     (map (\<lambda>i. Stock (Some (sym_n i)) ()) [10..<12],
      map (\<lambda>i. (sym_n i, Failed_to_fetch_multiple (Message ''timeout of 15000ms exceeded'')))
        [0..<10],
      [map sym_n [0..<10], map sym_n [10..<12]])"
  by code_simp

text \<open>
  Twelve symbols give two batches. The upstream call of the first batch times out, and
  \<open>c1\<close> is sent the \<open>stock_error\<close> of \<open>AB\<close>; the call of the second batch returns, and
  \<open>c1\<close> is sent the \<open>stock_update\<close> of \<open>AK\<close>.
\<close>

theorem refresh_cycle_batches_witness:
  "map sym_n [0..<10] \<in> set (snd (snd (refresh_fetch ascii_engine demo_api (reached (loaded 12)))))
   \<and> getMultipleStockPrices ascii_engine demo_api (JArr (map JStr (map sym_n [0..<10])))
       = Inl (Failed_to_fetch_multiple (Message ''timeout of 15000ms exceeded''))
   \<and> ''AB'' \<in> set (map sym_n [0..<10])
   \<and> ''c1'' \<in> clients (subscriptions (reached (loaded 12))) ''AB''
   \<and> live (reached (loaded 12)) ''c1''
   \<and> (''c1'', Stock_error ''AB''
          (Failed_to_fetch_multiple (Message ''timeout of 15000ms exceeded'')))
       \<in> set (broadcastStockUpdates ascii_engine demo_api (reached (loaded 12))
                (reached (loaded 12)))
   \<and> map sym_n [10..<12] \<in> set (snd (snd (refresh_fetch ascii_engine demo_api
        (reached (loaded 12)))))
   \<and> getMultipleStockPrices ascii_engine demo_api (JArr (map JStr (map sym_n [10..<12])))
       = Inr ([Stock (Some ''AK'') (), Stock (Some ''AL'') ()], [])
   \<and> ''c1'' \<in> clients (subscriptions (reached (loaded 12))) ''AK''
   \<and> (''c1'', Stock_update ''AK'' (Stock (Some ''AK'') ()))
       \<in> set (broadcastStockUpdates ascii_engine demo_api (reached (loaded 12))
                (reached (loaded 12)))"
proof -
  let ?st = "reached (loaded 12)"
  let ?b1 = "map sym_n [0..<10]" and ?b2 = "map sym_n [10..<12]"
  let ?e = "Failed_to_fetch_multiple (Message ''timeout of 15000ms exceeded'')"
  let ?out = "set (broadcastStockUpdates ascii_engine demo_api ?st ?st)"
  note f = refresh_fetch_demo
  have c1: "?b1 \<in> set (snd (snd (refresh_fetch ascii_engine demo_api ?st)))"
    and c2: "?b2 \<in> set (snd (snd (refresh_fetch ascii_engine demo_api ?st)))"
    unfolding f by simp_all
  have g1: "getMultipleStockPrices ascii_engine demo_api (JArr (map JStr ?b1)) = Inl ?e"
    by code_simp
  have g2: "getMultipleStockPrices ascii_engine demo_api (JArr (map JStr ?b2))
      = Inr ([Stock (Some ''AK'') (), Stock (Some ''AL'') ()], [])"
    by code_simp
  have m: "''AB'' \<in> set ?b1"
    by code_simp
  have k: "''c1'' \<in> clients (subscriptions ?st) ''AB''"
    "''c1'' \<in> clients (subscriptions ?st) ''AK''" "live ?st ''c1''"
    by code_simp+
  note t = refresh_cycle_batches [where js = ascii_engine and api = demo_api and st = ?st
      and st' = ?st, unfolded f, simplified prod.case]
  from t have 4: "\<forall>batch\<in>set [?b1, ?b2]. \<forall>e.
      getMultipleStockPrices ascii_engine demo_api (JArr (map JStr batch)) = Inl e \<longrightarrow>
      (\<forall>symbol\<in>set batch. (symbol, e) \<in> set (map (\<lambda>i. (sym_n i, ?e)) [0..<10])
         \<and> (\<forall>c. c \<in> clients (subscriptions ?st) symbol \<and> live ?st c \<longrightarrow>
               (c, Stock_error symbol e) \<in> ?out))"
    by blast
  from t have 5: "\<forall>batch\<in>set [?b1, ?b2]. \<forall>stocks errors.
      getMultipleStockPrices ascii_engine demo_api (JArr (map JStr batch)) = Inr (stocks, errors)
      \<longrightarrow> (\<forall>stock\<in>set stocks. \<forall>s c.
            stock_symbol stock = Some s \<and> c \<in> clients (subscriptions ?st) s \<and> live ?st c
            \<longrightarrow> (c, Stock_update s stock) \<in> ?out)"
    by blast
  have r1: "(''c1'', Stock_error ''AB'' ?e) \<in> ?out"
    using 4 g1 m k(1,3) by (metis list.set_intros(1))
  have "Stock (Some ''AK'') () \<in> set [Stock (Some ''AK'') (), Stock (Some ''AL'') ()]"
    by simp
  with 5 g2 k(2,3) have r2: "(''c1'', Stock_update ''AK'' (Stock (Some ''AK'') ())) \<in> ?out"
    by (metis list.set_intros(1,2) stock.sel(1))
  from c1 g1 m k r1 c2 g2 r2 show ?thesis by blast
qed

section \<open>Forced updates\<close>




end
